theory Spec2Isabelle
  imports Complex_Main
begin

section \<open>Identity metrics of TrackEval: the model\<close>

text \<open>
  The development embeds \<^verbatim>\<open>trackeval/metrics/identity.py\<close>: the classes
  \<^verbatim>\<open>Identity\<close> (detection level) and \<^verbatim>\<open>TrackIdentity\<close> (track level).

  Numbers. The numpy arrays of the source hold float64 values; they are modelled by
  \<open>real\<close>. All counts are whole numbers far below \<open>2 ^ 53\<close>, where float64 arithmetic is
  exact. The quotient that \<^verbatim>\<open>TrackIdentity\<close> compares with \<^verbatim>\<open>TRACK_IOU_THRESH\<close> is
  rounded to float64, as the division of the source does: whether a pair at the boundary
  is rejected depends on the rounded value. The cells of the normalised cost matrix are
  exact quotients; they are handed to the solver, which is a parameter of the model. A
  float that may be non-finite (nan, inf) is a \<open>real option\<close>, with \<open>None\<close> for the
  non-finite value. Python integers are \<open>int\<close>, identity indices and sizes are
  \<open>nat\<close> (the arrays of identity indices are index arrays: no negative entries).

  Arrays. A one-dimensional array is a function \<open>nat \<Rightarrow> real\<close>, a two-dimensional one a
  function \<open>nat \<Rightarrow> nat \<Rightarrow> real\<close>; the shape is carried by the surrounding code
  (\<open>num_gt_ids\<close>, \<open>num_tracker_ids\<close>). An index outside the shape raises
  \<^verbatim>\<open>IndexError\<close> in numpy, and the model has that branch wherever the source indexes
  with data from its input.
\<close>

datatype error = IndexError | ValueError

subsection \<open>Input and output\<close>

text \<open>The dictionary \<^verbatim>\<open>data\<close> with the keys that the source reads.\<close>

record seq_data =
  num_tracker_dets :: nat
  num_gt_dets :: nat
  num_gt_ids :: nat
  num_tracker_ids :: nat
  gt_ids :: "nat list list"
  tracker_ids :: "nat list list"
  similarity_scores :: "real list list list"

text \<open>
  The dictionary \<^verbatim>\<open>res\<close>: its keys are the fixed list \<^verbatim>\<open>self.fields\<close>
  (\<^verbatim>\<open>float_fields + integer_fields\<close>), so it is a record with these six fields.
\<close>

record id_res =
  IDF1 :: "real option"
  IDR :: "real option"
  IDP :: "real option"
  IDTP :: int
  IDFN :: int
  IDFP :: int

text \<open>\<^verbatim>\<open>for field in self.fields: res[field] = 0\<close>\<close>

definition init_res :: id_res where
  "init_res = \<lparr>IDF1 = Some 0, IDR = Some 0, IDP = Some 0, IDTP = 0, IDFN = 0, IDFP = 0\<rparr>"

subsection \<open>numpy primitives\<close>

text \<open>
  True division of floats: a zero divisor gives nan or inf (and a warning), never an
  exception.
\<close>

definition np_div :: "real \<Rightarrow> real \<Rightarrow> real option" where
  "np_div a b = (if b = 0 then None else Some (a / b))"

text \<open>
  \<^verbatim>\<open>x / y\<close> on two float64 values is the division of IEEE 754 binary64: the exact
  quotient is rounded to the nearest float64, a tie going to the neighbour with the even
  significand. A real \<open>x\<close> with \<open>2^e \<le> x < 2^(e+1)\<close> is rounded on the grid of spacing
  \<open>2^(e-52)\<close>; below \<open>2^(-1022)\<close> the spacing stays \<open>2^(-1074)\<close> (the subnormal numbers); a
  rounded magnitude of \<open>2^1024\<close> or more is inf. The exponent \<open>e\<close> is found by doubling or
  halving \<open>x\<close>, at most as often as the exponent range of the format allows.
\<close>

definition round_half_even :: "real \<Rightarrow> int" where
  "round_half_even q =
     (let f = \<lfloor>q\<rfloor>; d = q - of_int f
      in if d < 1 / 2 then f else if 1 / 2 < d then f + 1 else if even f then f else f + 1)"

primrec doublings :: "nat \<Rightarrow> real \<Rightarrow> nat" where
  "doublings 0 x = 0"
| "doublings (Suc k) x = (if x < 1 then Suc (doublings k (2 * x)) else 0)"

primrec halvings :: "nat \<Rightarrow> real \<Rightarrow> nat" where
  "halvings 0 x = 0"
| "halvings (Suc k) x = (if 2 \<le> x then Suc (halvings k (x / 2)) else 0)"

definition f64_exponent :: "real \<Rightarrow> int" where
  "f64_exponent x = (if x < 1 then - int (doublings 1022 x) else int (halvings 1024 x))"

definition f64_ulp :: "real \<Rightarrow> real" where
  "f64_ulp x = (let k = f64_exponent x - 52 in if 0 \<le> k then 2 ^ nat k else 1 / 2 ^ nat (- k))"

definition f64_nearest :: "real \<Rightarrow> real" where
  "f64_nearest x = of_int (round_half_even (x / f64_ulp x)) * f64_ulp x"

text \<open>The float64 nearest to a real; \<open>None\<close> is inf or -inf.\<close>

definition f64_round :: "real \<Rightarrow> real option" where
  "f64_round x =
     (let m = f64_nearest \<bar>x\<bar>
      in if 2 ^ 1024 \<le> m then None else Some (if x < 0 then - m else m))"

text \<open>The reals that are float64 values.\<close>

definition is_f64 :: "real \<Rightarrow> bool" where
  "is_f64 x = (f64_round x = Some x)"

text \<open>
  \<^verbatim>\<open>a / b\<close> on two float64 values \<open>a\<close> and \<open>b\<close>; \<open>None\<close> is a non-finite quotient (nan, inf
  or -inf).
\<close>

definition f64_div :: "real \<Rightarrow> real \<Rightarrow> real option" where
  "f64_div a b = (if b = 0 then None else f64_round (a / b))"

text \<open>\<^verbatim>\<open>x.astype(np.int)\<close> on a float: truncation towards zero.\<close>

definition astype_int :: "real \<Rightarrow> int" where
  "astype_int x = (if 0 \<le> x then \<lfloor>x\<rfloor> else \<lceil>x\<rceil>)"

text \<open>
  \<^verbatim>\<open>np.nonzero(np.greater_equal(sim, threshold))\<close>: the index pairs of the entries at
  or above the threshold, in row-major order.
\<close>

definition nonzero_ge :: "real list list \<Rightarrow> real \<Rightarrow> (nat \<times> nat) list" where
  "nonzero_ge sim thr =
     concat (map (\<lambda>i. map (\<lambda>j. (i, j)) (filter (\<lambda>j. thr \<le> sim ! i ! j) [0..<length (sim ! i)]))
       [0..<length sim])"

text \<open>
  \<^verbatim>\<open>M[r0:r1, c0:c1] = V\<close>, with \<open>V\<close> given in the coordinates of \<open>M\<close>.
\<close>

definition set_block ::
  "(nat \<Rightarrow> nat \<Rightarrow> 'a) \<Rightarrow> nat \<Rightarrow> nat \<Rightarrow> nat \<Rightarrow> nat \<Rightarrow> (nat \<Rightarrow> nat \<Rightarrow> 'a) \<Rightarrow> nat \<Rightarrow> nat \<Rightarrow> 'a" where
  "set_block M r0 r1 c0 c1 V = (\<lambda>i j. if r0 \<le> i \<and> i < r1 \<and> c0 \<le> j \<and> j < c1 then V i j else M i j)"

text \<open>\<^verbatim>\<open>M[i, j] = v\<close>\<close>

definition set_cell :: "(nat \<Rightarrow> nat \<Rightarrow> 'a) \<Rightarrow> nat \<Rightarrow> nat \<Rightarrow> 'a \<Rightarrow> nat \<Rightarrow> nat \<Rightarrow> 'a" where
  "set_cell M i j v = (\<lambda>i' j'. if i' = i \<and> j' = j then v else M i' j')"

text \<open>
  \<^verbatim>\<open>M[rows, cols].sum()\<close> with two index lists: the lists are paired; an index outside
  the \<open>n \<times> n\<close> shape or lists of different lengths raise \<^verbatim>\<open>IndexError\<close>. The two lists
  are the row and column indices returned by the solver, which have the same length, so
  numpy's broadcasting of a one-element index list against a longer one does not arise.
\<close>

definition fancy_sum :: "nat \<Rightarrow> (nat \<Rightarrow> nat \<Rightarrow> real) \<Rightarrow> nat list \<Rightarrow> nat list \<Rightarrow> error + real" where
  "fancy_sum n M rows cols =
     (if length rows \<noteq> length cols then Inl IndexError
      else if (\<exists>r\<in>set rows. n \<le> r) \<or> (\<exists>c\<in>set cols. n \<le> c) then Inl IndexError
      else Inr (sum_list (map (\<lambda>(r, c). M r c) (zip rows cols))))"

subsection \<open>Accumulating the global track information\<close>

text \<open>
  The three arrays \<^verbatim>\<open>potential_matches_count\<close>, \<^verbatim>\<open>gt_id_count\<close> and
  \<^verbatim>\<open>tracker_id_count\<close>.
\<close>

type_synonym tables = "(nat \<Rightarrow> nat \<Rightarrow> real) \<times> (nat \<Rightarrow> real) \<times> (nat \<Rightarrow> real)"

text \<open>
  The identity pairs that one timestep matches:
  \<^verbatim>\<open>gt_ids_t[match_idx_gt], tracker_ids_t[match_idx_tracker]\<close>.
\<close>

definition matched_ids :: "real \<Rightarrow> nat list \<Rightarrow> nat list \<Rightarrow> real list list \<Rightarrow> (nat \<times> nat) list" where
  "matched_ids thr gt_ids_t tracker_ids_t sim =
     map (\<lambda>(i, j). (gt_ids_t ! i, tracker_ids_t ! j)) (nonzero_ge sim thr)"

text \<open>
  The body of the loop over the timesteps. An in-place \<^verbatim>\<open>a[idx] += 1\<close> with an index
  list reads \<open>a[idx]\<close>, adds one and writes back: an index that occurs several times in
  \<open>idx\<close> is incremented once. Every index is checked against the shape of the array.
\<close>

definition frame_step ::
  "real \<Rightarrow> nat \<Rightarrow> nat \<Rightarrow> tables \<Rightarrow> nat list \<Rightarrow> nat list \<Rightarrow> real list list \<Rightarrow> error + tables" where
  "frame_step thr G T tabs gt_ids_t tracker_ids_t sim =
     (case tabs of (potential_matches_count, gt_id_count, tracker_id_count) \<Rightarrow>
        if (\<exists>(i, j)\<in>set (nonzero_ge sim thr). length gt_ids_t \<le> i \<or> length tracker_ids_t \<le> j)
        then Inl IndexError
        else if (\<exists>(g, t)\<in>set (matched_ids thr gt_ids_t tracker_ids_t sim). G \<le> g \<or> T \<le> t)
        then Inl IndexError
        else if (\<exists>g\<in>set gt_ids_t. G \<le> g) then Inl IndexError
        else if (\<exists>t\<in>set tracker_ids_t. T \<le> t) then Inl IndexError
        else Inr
          (\<lambda>g t. potential_matches_count g t +
              (if (g, t) \<in> set (matched_ids thr gt_ids_t tracker_ids_t sim) then 1 else 0),
           \<lambda>g. gt_id_count g + (if g \<in> set gt_ids_t then 1 else 0),
           \<lambda>t. tracker_id_count t + (if t \<in> set tracker_ids_t then 1 else 0)))"

text \<open>
  \<^verbatim>\<open>for t, (gt_ids_t, tracker_ids_t) in enumerate(zip(data['gt_ids'], data['tracker_ids']))\<close>,
  reading \<^verbatim>\<open>data['similarity_scores'][t]\<close>.
\<close>

fun accumulate_loop ::
  "real \<Rightarrow> nat \<Rightarrow> nat \<Rightarrow> real list list list \<Rightarrow> tables \<Rightarrow> (nat \<times> nat list \<times> nat list) list
     \<Rightarrow> error + tables" where
  "accumulate_loop thr G T sims tabs [] = Inr tabs"
| "accumulate_loop thr G T sims tabs ((t, gt_ids_t, tracker_ids_t) # rest) =
     (if length sims \<le> t then Inl IndexError
      else case frame_step thr G T tabs gt_ids_t tracker_ids_t (sims ! t) of
             Inl e \<Rightarrow> Inl e
           | Inr tabs' \<Rightarrow> accumulate_loop thr G T sims tabs' rest)"

definition frames :: "seq_data \<Rightarrow> (nat \<times> nat list \<times> nat list) list" where
  "frames data = enumerate 0 (zip (gt_ids data) (tracker_ids data))"

definition accumulate :: "real \<Rightarrow> seq_data \<Rightarrow> error + tables" where
  "accumulate thr data =
     accumulate_loop thr (num_gt_ids data) (num_tracker_ids data) (similarity_scores data)
       (\<lambda>g t. 0, \<lambda>g. 0, \<lambda>t. 0) (frames data)"

subsection \<open>The assignment solver\<close>

text \<open>
  \<^verbatim>\<open>scipy.optimize.linear_sum_assignment\<close> is a library routine. The model takes it as
  a parameter: from the size and the square cost matrix to the pair
  \<^verbatim>\<open>(row_ind, col_ind)\<close>. Its contract is \<open>lsa_ok\<close>: the rows are \<open>0, \<dots>, n - 1\<close> in
  order, the columns are a permutation of them, and no permutation has a smaller total
  cost.
\<close>

type_synonym solver = "nat \<Rightarrow> (nat \<Rightarrow> nat \<Rightarrow> real) \<Rightarrow> nat list \<times> nat list"

definition assignments :: "nat \<Rightarrow> nat list list" where
  "assignments n = filter distinct (List.n_lists n [0..<n])"

definition total_cost :: "nat \<Rightarrow> (nat \<Rightarrow> nat \<Rightarrow> real) \<Rightarrow> nat list \<Rightarrow> real" where
  "total_cost n C cols = sum_list (map (\<lambda>i. C i (cols ! i)) [0..<n])"

definition lsa_ok :: "nat \<Rightarrow> (nat \<Rightarrow> nat \<Rightarrow> real) \<Rightarrow> nat list \<times> nat list \<Rightarrow> bool" where
  "lsa_ok n C rc =
     (fst rc = [0..<n] \<and> snd rc \<in> set (assignments n) \<and>
      (\<forall>p\<in>set (assignments n). total_cost n C (snd rc) \<le> total_cost n C p))"

subsection \<open>Identity: the detection-level metric\<close>

text \<open>The class method \<^verbatim>\<open>_compute_final_fields\<close>.\<close>

definition compute_final_fields :: "id_res \<Rightarrow> id_res" where
  "compute_final_fields res0 =
     (let res1 =
            (if IDFN res0 \<noteq> 0
             then res0\<lparr>IDR := np_div (real_of_int (IDTP res0))
                                  (max 1 (real_of_int (IDTP res0 + IDFN res0)))\<rparr>
             else res0\<lparr>IDR := Some 1\<rparr>);
          res2 =
            (if IDFP res1 \<noteq> 0
             then res1\<lparr>IDP := np_div (real_of_int (IDTP res1))
                                  (max 1 (real_of_int (IDTP res1 + IDFP res1)))\<rparr>
             else res1\<lparr>IDP := Some 1\<rparr>)
      in if IDFN res2 \<noteq> 0 \<or> IDFP res2 \<noteq> 0
         then res2\<lparr>IDF1 := np_div (real_of_int (IDTP res2))
                 (max 1 (real_of_int (IDTP res2) + 0.5 * real_of_int (IDFP res2)
                           + 0.5 * real_of_int (IDFN res2)))\<rparr>
         else res2\<lparr>IDF1 := Some 1\<rparr>)"

text \<open>
  The two matrices \<^verbatim>\<open>fn_mat\<close> and \<^verbatim>\<open>fp_mat\<close> of \<^verbatim>\<open>Identity.eval_sequence\<close>,
  statement by statement. \<open>pen\<close> is the literal that fills the forbidden blocks and \<open>own\<close>
  the value written to an identity's own sink cell: \<^verbatim>\<open>1e10\<close> and the identity's count
  in \<^verbatim>\<open>Identity\<close>.
\<close>

definition penalty :: real where
  "penalty = 10 ^ 10"

definition fn_rows ::
  "nat \<Rightarrow> nat \<Rightarrow> (nat \<Rightarrow> real) \<Rightarrow> (nat \<Rightarrow> real) \<Rightarrow> (nat \<Rightarrow> nat \<Rightarrow> real) \<Rightarrow> nat \<Rightarrow> nat \<Rightarrow> real" where
  "fn_rows G T gt_id_count own M =
     fold (\<lambda>gt_id M. set_cell (set_block M gt_id (gt_id + 1) 0 T (\<lambda>i j. gt_id_count gt_id))
                        gt_id (T + gt_id) (own gt_id))
       [0..<G] M"

definition fp_cols ::
  "nat \<Rightarrow> nat \<Rightarrow> (nat \<Rightarrow> real) \<Rightarrow> (nat \<Rightarrow> real) \<Rightarrow> (nat \<Rightarrow> nat \<Rightarrow> real) \<Rightarrow> nat \<Rightarrow> nat \<Rightarrow> real" where
  "fp_cols G T tracker_id_count own M =
     fold (\<lambda>tracker_id M.
             set_cell (set_block M 0 G tracker_id (tracker_id + 1) (\<lambda>i j. tracker_id_count tracker_id))
               (tracker_id + G) tracker_id (own tracker_id))
       [0..<T] M"

definition build_fn_mat ::
  "real \<Rightarrow> (nat \<Rightarrow> real) \<Rightarrow> nat \<Rightarrow> nat \<Rightarrow> tables \<Rightarrow> nat \<Rightarrow> nat \<Rightarrow> real" where
  "build_fn_mat pen own G T tabs =
     (case tabs of (potential_matches_count, gt_id_count, tracker_id_count) \<Rightarrow>
        let fn_mat = (\<lambda>i j. 0);
            fn_mat = set_block fn_mat 0 G T (G + T) (\<lambda>i j. pen);
            fn_mat = fn_rows G T gt_id_count own fn_mat
        in set_block fn_mat 0 G 0 T (\<lambda>i j. fn_mat i j - potential_matches_count i j))"

definition build_fp_mat ::
  "real \<Rightarrow> (nat \<Rightarrow> real) \<Rightarrow> nat \<Rightarrow> nat \<Rightarrow> tables \<Rightarrow> nat \<Rightarrow> nat \<Rightarrow> real" where
  "build_fp_mat pen own G T tabs =
     (case tabs of (potential_matches_count, gt_id_count, tracker_id_count) \<Rightarrow>
        let fp_mat = (\<lambda>i j. 0);
            fp_mat = set_block fp_mat G (G + T) 0 T (\<lambda>i j. pen);
            fp_mat = fp_cols G T tracker_id_count own fp_mat
        in set_block fp_mat 0 G 0 T (\<lambda>i j. fp_mat i j - potential_matches_count i j))"

definition id_fn_mat :: "nat \<Rightarrow> nat \<Rightarrow> tables \<Rightarrow> nat \<Rightarrow> nat \<Rightarrow> real" where
  "id_fn_mat G T tabs = build_fn_mat penalty (fst (snd tabs)) G T tabs"

definition id_fp_mat :: "nat \<Rightarrow> nat \<Rightarrow> tables \<Rightarrow> nat \<Rightarrow> nat \<Rightarrow> real" where
  "id_fp_mat G T tabs = build_fp_mat penalty (snd (snd tabs)) G T tabs"

text \<open>The matrix \<^verbatim>\<open>fn_mat + fp_mat\<close> handed to the solver.\<close>

definition id_cost_matrix :: "nat \<Rightarrow> nat \<Rightarrow> tables \<Rightarrow> nat \<Rightarrow> nat \<Rightarrow> real" where
  "id_cost_matrix G T tabs = (\<lambda>i j. id_fn_mat G T tabs i j + id_fp_mat G T tabs i j)"

text \<open>\<^verbatim>\<open>Identity.eval_sequence\<close>\<close>

definition eval_sequence :: "solver \<Rightarrow> real \<Rightarrow> seq_data \<Rightarrow> error + id_res" where
  "eval_sequence lsa threshold data =
     (let res = init_res in
      if num_tracker_dets data = 0
      then Inr (compute_final_fields (res\<lparr>IDFN := int (num_gt_dets data)\<rparr>))
      else if num_gt_dets data = 0
      then Inr (compute_final_fields (res\<lparr>IDFP := int (num_tracker_dets data)\<rparr>))
      else
        case accumulate threshold data of
          Inl e \<Rightarrow> Inl e
        | Inr tabs \<Rightarrow>
            let G = num_gt_ids data;
                T = num_tracker_ids data;
                fn_mat = id_fn_mat G T tabs;
                fp_mat = id_fp_mat G T tabs;
                (match_rows, match_cols) = lsa (G + T) (\<lambda>i j. fn_mat i j + fp_mat i j)
            in case fancy_sum (G + T) fn_mat match_rows match_cols of
                 Inl e \<Rightarrow> Inl e
               | Inr fn_sum \<Rightarrow>
                   (case fancy_sum (G + T) fp_mat match_rows match_cols of
                      Inl e \<Rightarrow> Inl e
                    | Inr fp_sum \<Rightarrow>
                        let res = res\<lparr>IDFN := astype_int fn_sum\<rparr>;
                            res = res\<lparr>IDFP := astype_int fp_sum\<rparr>;
                            res = res\<lparr>IDTP := astype_int
                                    (sum_list (map (fst (snd tabs)) [0..<G]) - real_of_int (IDFN res))\<rparr>
                        in Inr (compute_final_fields res)))"

subsection \<open>TrackIdentity: the track-level metric\<close>

text \<open>
  \<^verbatim>\<open>TrackIdentity.eval_sequence\<close> builds the same two matrices with the literal \<open>1\<close>
  in the forbidden blocks and \<^verbatim>\<open>1.0 - 1e-6\<close> in the own-sink cells.
\<close>

definition track_fn_mat :: "nat \<Rightarrow> nat \<Rightarrow> tables \<Rightarrow> nat \<Rightarrow> nat \<Rightarrow> real" where
  "track_fn_mat G T tabs = build_fn_mat 1 (\<lambda>g. 1 - 1 / 10 ^ 6) G T tabs"

definition track_fp_mat :: "nat \<Rightarrow> nat \<Rightarrow> tables \<Rightarrow> nat \<Rightarrow> nat \<Rightarrow> real" where
  "track_fp_mat G T tabs = build_fp_mat 1 (\<lambda>t. 1 - 1 / 10 ^ 6) G T tabs"

text \<open>
  \<^verbatim>\<open>cost_matrix = fn_mat + fp_mat\<close>, then the elementwise division of the real block by
  itself plus \<^verbatim>\<open>potential_matches_count\<close>, then the sink block set to \<open>1\<close>. The
  division can leave a non-finite entry (\<open>None\<close>).
\<close>

definition track_cost_matrix :: "nat \<Rightarrow> nat \<Rightarrow> tables \<Rightarrow> nat \<Rightarrow> nat \<Rightarrow> real option" where
  "track_cost_matrix G T tabs =
     (let fn_mat = track_fn_mat G T tabs;
          fp_mat = track_fp_mat G T tabs;
          cost_matrix = (\<lambda>i j. fn_mat i j + fp_mat i j);
          normalized = set_block (\<lambda>i j. Some (cost_matrix i j)) 0 G 0 T
                         (\<lambda>i j. np_div (cost_matrix i j) (cost_matrix i j + fst tabs i j))
      in set_block normalized G (G + T) T (G + T) (\<lambda>i j. Some 1))"

text \<open>
  \<^verbatim>\<open>np.less_equal(x / y, thresh)\<close>: the float64 quotient of the two counts is compared
  with the threshold; a comparison with a non-finite quotient of non-negative counts (nan
  or inf) is false.
\<close>

definition ratio_le :: "real \<Rightarrow> real \<Rightarrow> real \<Rightarrow> bool" where
  "ratio_le x y thresh = (case f64_div x y of None \<Rightarrow> False | Some q \<Rightarrow> q \<le> thresh)"

text \<open>
  The counts that \<^verbatim>\<open>TrackIdentity.eval_sequence\<close> takes from the solver's answer.
  \<open>pairs\<close> is \<^verbatim>\<open>zip(match_rows, match_cols)\<close>.
\<close>

definition re_assigned :: "nat \<Rightarrow> nat \<Rightarrow> tables \<Rightarrow> real \<Rightarrow> (nat \<times> nat) list \<Rightarrow> nat" where
  "re_assigned G T tabs track_iou_threshold pairs =
     length (filter (\<lambda>(r, c). ratio_le (fst tabs r c) (snd (snd tabs) c) track_iou_threshold)
               (filter (\<lambda>(r, c). r < G \<and> c < T) pairs))"

definition gt_to_sink :: "nat \<Rightarrow> nat \<Rightarrow> (nat \<times> nat) list \<Rightarrow> nat" where
  "gt_to_sink G T pairs = length (filter (\<lambda>(r, c). r < G \<and> T \<le> c) pairs)"

definition sink_to_tracker :: "nat \<Rightarrow> nat \<Rightarrow> (nat \<times> nat) list \<Rightarrow> nat" where
  "sink_to_tracker G T pairs = length (filter (\<lambda>(r, c). G \<le> r \<and> c < T) pairs)"

text \<open>
  \<^verbatim>\<open>TrackIdentity.eval_sequence\<close>. The solver rejects a matrix with a nan entry
  (\<^verbatim>\<open>ValueError\<close>); arrays of different lengths do not broadcast
  (\<^verbatim>\<open>ValueError\<close>).
\<close>

definition track_eval_sequence :: "solver \<Rightarrow> real \<Rightarrow> real \<Rightarrow> seq_data \<Rightarrow> error + id_res" where
  "track_eval_sequence lsa threshold track_iou_threshold data =
     (let res = init_res in
      if num_tracker_dets data = 0
      then Inr (res\<lparr>IDFN := int (num_gt_ids data)\<rparr>)
      else if num_gt_dets data = 0
      then Inr (res\<lparr>IDFP := int (num_tracker_ids data)\<rparr>)
      else
        case accumulate threshold data of
          Inl e \<Rightarrow> Inl e
        | Inr tabs \<Rightarrow>
            let G = num_gt_ids data;
                T = num_tracker_ids data;
                cost_matrix = track_cost_matrix G T tabs
            in if (\<exists>i\<in>set [0..<G + T]. \<exists>j\<in>set [0..<G + T]. cost_matrix i j = None)
               then Inl ValueError
               else
                 let (match_rows, match_cols) = lsa (G + T) (\<lambda>i j. the (cost_matrix i j))
                 in if length match_rows \<noteq> length match_cols then Inl ValueError
                    else
                      let pairs = zip match_rows match_cols;
                          re = re_assigned G T tabs track_iou_threshold pairs;
                          res = res\<lparr>IDFN := int (gt_to_sink G T pairs) + int re\<rparr>;
                          res = res\<lparr>IDFP := int (sink_to_tracker G T pairs) + int re\<rparr>;
                          res = res\<lparr>IDTP := int G - IDFN res\<rparr>
                      in Inr (compute_final_fields res))"

subsection \<open>Combining sequences (track level)\<close>

text \<open>
  Modelled from the spec: \<^verbatim>\<open>_BaseMetric._combine_sum\<close> is defined in
  \<^verbatim>\<open>_base_metric.py\<close>, which is not part of the sources at hand. The spec:
  "sum an integer field across a mapping of named per-unit results". The mapping
  \<^verbatim>\<open>all_res\<close> is the list of its items.
\<close>

definition combine_sum :: "(string \<times> id_res) list \<Rightarrow> (id_res \<Rightarrow> int) \<Rightarrow> int" where
  "combine_sum all_res field = sum_list (map (\<lambda>(k, v). field v) all_res)"

text \<open>\<^verbatim>\<open>np.mean\<close> of a list: nan for the empty list and for a list with a nan.\<close>

definition np_mean :: "real option list \<Rightarrow> real option" where
  "np_mean xs =
     (if xs = [] \<or> None \<in> set xs then None
      else Some (sum_list (map the xs) / real (length xs)))"

text \<open>
  \<^verbatim>\<open>TrackIdentity.combine_sequences\<close>. The dictionary \<^verbatim>\<open>res\<close> starts with the
  integer fields only; every returning branch then writes the three float fields, so the
  value \<open>None\<close> that stands for the missing keys is never returned.
\<close>

definition track_combine_sequences :: "(string \<times> id_res) list \<Rightarrow> string \<Rightarrow> error + id_res" where
  "track_combine_sequences all_res average =
     (let res = \<lparr>IDF1 = None, IDR = None, IDP = None,
                 IDTP = combine_sum all_res IDTP,
                 IDFN = combine_sum all_res IDFN,
                 IDFP = combine_sum all_res IDFP\<rparr>
      in if average = ''micro'' then Inr (compute_final_fields res)
         else if average = ''macro''
         then Inr (res\<lparr>IDF1 := np_mean (map (\<lambda>(k, v). IDF1 v) all_res),
                       IDR := np_mean (map (\<lambda>(k, v). IDR v) all_res),
                       IDP := np_mean (map (\<lambda>(k, v). IDP v) all_res)\<rparr>)
         else Inl ValueError)"

subsection \<open>Well-formed sequences\<close>

text \<open>
  The invariants of the input: the three per-timestep lists have one entry per
  timestep; the similarity matrix of a timestep has one row per ground-truth detection
  and one column per tracker detection of that timestep; every identity index lies in
  its declared range.
\<close>

definition shapes_ok :: "seq_data \<Rightarrow> bool" where
  "shapes_ok data =
     (length (tracker_ids data) = length (gt_ids data) \<and>
      length (similarity_scores data) = length (gt_ids data) \<and>
      (\<forall>t\<in>set [0..<length (gt_ids data)].
         length (similarity_scores data ! t) = length (gt_ids data ! t) \<and>
         (\<forall>row\<in>set (similarity_scores data ! t). length row = length (tracker_ids data ! t)) \<and>
         (\<forall>g\<in>set (gt_ids data ! t). g < num_gt_ids data) \<and>
         (\<forall>k\<in>set (tracker_ids data ! t). k < num_tracker_ids data)))"

text \<open>
  The declared identities are those that appear: every index below
  \<open>num_gt_ids\<close> (\<open>num_tracker_ids\<close>) is listed by some timestep.
\<close>

definition ids_appear :: "seq_data \<Rightarrow> bool" where
  "ids_appear data =
     ((\<forall>g\<in>set [0..<num_gt_ids data]. \<exists>fr\<in>set (frames data). g \<in> set (fst (snd fr))) \<and>
      (\<forall>k\<in>set [0..<num_tracker_ids data]. \<exists>fr\<in>set (frames data). k \<in> set (snd (snd fr))))"

text \<open>A timestep lists an identity at most once.\<close>

definition ids_distinct :: "seq_data \<Rightarrow> bool" where
  "ids_distinct data =
     ((\<forall>gs\<in>set (gt_ids data). distinct gs) \<and> (\<forall>ks\<in>set (tracker_ids data). distinct ks))"

text \<open>The detection counts are the numbers of listed detections.\<close>

definition dets_counted :: "seq_data \<Rightarrow> bool" where
  "dets_counted data =
     (num_gt_dets data = sum_list (map length (gt_ids data)) \<and>
      num_tracker_dets data = sum_list (map length (tracker_ids data)))"

definition valid_data :: "seq_data \<Rightarrow> bool" where
  "valid_data data = (shapes_ok data \<and> ids_appear data \<and> ids_distinct data \<and> dets_counted data)"

subsection \<open>The derivation of the ratios, in the words of the specification\<close>

text \<open>
  The specification's derivation of the ratios from the counts: \<open>IDR = 1\<close> if
  \<open>IDFN = 0\<close>, else \<open>IDTP / max(1.0, IDTP + IDFN)\<close>; \<open>IDP = 1\<close> if \<open>IDFP = 0\<close>, else
  \<open>IDTP / max(1.0, IDTP + IDFP)\<close>; \<open>IDF1 = 1\<close> if both are zero, else
  \<open>IDTP / max(1.0, IDTP + 0.5 IDFP + 0.5 IDFN)\<close>. These are plain real numbers: a
  quotient with a zero divisor has no place in them.
\<close>

definition spec_IDR :: "int \<Rightarrow> int \<Rightarrow> real" where
  "spec_IDR idtp idfn =
     (if idfn = 0 then 1 else real_of_int idtp / max 1 (real_of_int idtp + real_of_int idfn))"

definition spec_IDP :: "int \<Rightarrow> int \<Rightarrow> real" where
  "spec_IDP idtp idfp =
     (if idfp = 0 then 1 else real_of_int idtp / max 1 (real_of_int idtp + real_of_int idfp))"

definition spec_IDF1 :: "int \<Rightarrow> int \<Rightarrow> int \<Rightarrow> real" where
  "spec_IDF1 idtp idfn idfp =
     (if idfn = 0 \<and> idfp = 0 then 1
      else real_of_int idtp /
             max 1 (real_of_int idtp + 0.5 * real_of_int idfp + 0.5 * real_of_int idfn))"

definition spec_derive :: "int \<Rightarrow> int \<Rightarrow> int \<Rightarrow> id_res" where
  "spec_derive idtp idfn idfp =
     \<lparr>IDF1 = Some (spec_IDF1 idtp idfn idfp), IDR = Some (spec_IDR idtp idfn),
      IDP = Some (spec_IDP idtp idfp), IDTP = idtp, IDFN = idfn, IDFP = idfp\<rparr>"

text \<open>The sum and the arithmetic mean of one field over named results.\<close>

definition field_sum :: "(id_res \<Rightarrow> int) \<Rightarrow> (string \<times> id_res) list \<Rightarrow> int" where
  "field_sum f all_res = (\<Sum>kv\<leftarrow>all_res. f (snd kv))"

definition field_mean :: "(id_res \<Rightarrow> real option) \<Rightarrow> (string \<times> id_res) list \<Rightarrow> real" where
  "field_mean f all_res = (\<Sum>kv\<leftarrow>all_res. the (f (snd kv))) / real (length all_res)"

subsection \<open>The accumulated tables in closed form\<close>

text \<open>
  A timestep that the loop processes without \<^verbatim>\<open>IndexError\<close>: its similarity matrix
  exists, the matched index pairs lie inside the two identity arrays, and the identities
  lie inside the tables.
\<close>

definition frame_ok ::
  "real \<Rightarrow> nat \<Rightarrow> nat \<Rightarrow> real list list list \<Rightarrow> nat \<times> nat list \<times> nat list \<Rightarrow> bool" where
  "frame_ok thr G T sims fr =
     (case fr of (t, gs, ks) \<Rightarrow>
        t < length sims \<and>
        (\<forall>(i, j)\<in>set (nonzero_ge (sims ! t) thr). i < length gs \<and> j < length ks) \<and>
        (\<forall>g\<in>set gs. g < G) \<and> (\<forall>k\<in>set ks. k < T))"

text \<open>
  The number of timesteps that list a ground-truth identity, that list a tracker identity,
  and that match a pair of identities.
\<close>

definition gt_count :: "(nat \<times> nat list \<times> nat list) list \<Rightarrow> nat \<Rightarrow> nat" where
  "gt_count fs g = length (filter (\<lambda>(t, gs, ks). g \<in> set gs) fs)"

definition tracker_count :: "(nat \<times> nat list \<times> nat list) list \<Rightarrow> nat \<Rightarrow> nat" where
  "tracker_count fs k = length (filter (\<lambda>(t, gs, ks). k \<in> set ks) fs)"

definition match_count ::
  "real \<Rightarrow> real list list list \<Rightarrow> (nat \<times> nat list \<times> nat list) list \<Rightarrow> nat \<Rightarrow> nat \<Rightarrow> nat" where
  "match_count thr sims fs g k =
     length (filter (\<lambda>(t, gs, ks). (g, k) \<in> set (matched_ids thr gs ks (sims ! t))) fs)"

text \<open>The three tables of a sequence.\<close>

definition seq_tables :: "real \<Rightarrow> seq_data \<Rightarrow> tables" where
  "seq_tables thr data =
     (\<lambda>g k. real (match_count thr (similarity_scores data) (frames data) g k),
      \<lambda>g. real (gt_count (frames data) g),
      \<lambda>k. real (tracker_count (frames data) k))"

subsection \<open>The rejection rule and the output contract, in the words of the specification\<close>

text \<open>
  The specification's acceptance test of a matched real pair: the pair \<open>(g, t)\<close> is rejected
  if \<open>matchCount[g, t] / trackerCount[t] \<le> TRACK_IOU_THRESH\<close>, the quotient being the
  float64 quotient of the two counts. A solver pair \<open>(r, c)\<close>
  contributes one unit to \<open>IDFN\<close> if a ground-truth row goes to a sink column or forms a
  rejected real pair, and one unit to \<open>IDFP\<close> if a sink row goes to a tracker column or
  the pair is a rejected real pair.
\<close>

definition rejected :: "tables \<Rightarrow> real \<Rightarrow> nat \<Rightarrow> nat \<Rightarrow> bool" where
  "rejected tabs track_iou_thresh g t =
     (case f64_div (fst tabs g t) (snd (snd tabs) t) of
        None \<Rightarrow> False
      | Some q \<Rightarrow> q \<le> track_iou_thresh)"

definition fn_units :: "nat \<Rightarrow> nat \<Rightarrow> tables \<Rightarrow> real \<Rightarrow> nat \<times> nat \<Rightarrow> int" where
  "fn_units G T tabs track_iou_thresh p =
     (case p of (r, c) \<Rightarrow>
        if r < G \<and> T \<le> c then 1
        else if r < G \<and> c < T \<and> rejected tabs track_iou_thresh r c then 1
        else 0)"

definition fp_units :: "nat \<Rightarrow> nat \<Rightarrow> tables \<Rightarrow> real \<Rightarrow> nat \<times> nat \<Rightarrow> int" where
  "fp_units G T tabs track_iou_thresh p =
     (case p of (r, c) \<Rightarrow>
        if G \<le> r \<and> c < T then 1
        else if r < G \<and> c < T \<and> rejected tabs track_iou_thresh r c then 1
        else 0)"

text \<open>
  The output contract: the three counts are non-negative and the three ratios are finite
  values in \<open>[0, 1]\<close>.
\<close>

definition unit_float :: "real option \<Rightarrow> bool" where
  "unit_float x = (case x of None \<Rightarrow> False | Some v \<Rightarrow> 0 \<le> v \<and> v \<le> 1)"

definition output_ok :: "id_res \<Rightarrow> bool" where
  "output_ok res =
     (0 \<le> IDTP res \<and> 0 \<le> IDFN res \<and> 0 \<le> IDFP res \<and>
      unit_float (IDF1 res) \<and> unit_float (IDR res) \<and> unit_float (IDP res))"

subsection \<open>Particular assignments and solvers\<close>

text \<open>The assignment that leaves every identity unmatched: row \<open>g\<close> to its own sink column
  \<open>T + g\<close>, sink row \<open>G + t\<close> to column \<open>t\<close>.\<close>

definition unmatched :: "nat \<Rightarrow> nat \<Rightarrow> nat list" where
  "unmatched G T = map (\<lambda>i. if i < G then T + i else i - G) [0..<G + T]"

text \<open>An assignment that uses none of the cells filled with the penalty literal.\<close>

definition penalty_free :: "nat \<Rightarrow> nat \<Rightarrow> nat list \<Rightarrow> bool" where
  "penalty_free G T cols =
     (\<forall>i\<in>set [0..<G + T].
        if i < G then cols ! i < T \<or> cols ! i = T + i
        else T \<le> cols ! i \<or> cols ! i + G = i)"

text \<open>A solver that answers with the identity assignment.\<close>

definition diagonal_solver :: solver where
  "diagonal_solver n C = ([0..<n], [0..<n])"

text \<open>A solver by exhaustive search: the first assignment of minimum total cost.\<close>

definition brute_solver :: solver where
  "brute_solver n C = ([0..<n], arg_min_list (total_cost n C) (assignments n))"

subsection \<open>Sample inputs\<close>

text \<open>A sequence with two ground-truth detections of one identity and no tracker output.\<close>

definition empty_tracker_data :: seq_data where
  "empty_tracker_data =
     \<lparr>num_tracker_dets = 0, num_gt_dets = 2, num_gt_ids = 1, num_tracker_ids = 0,
      gt_ids = [[0], [0]], tracker_ids = [[], []], similarity_scores = [[[]], [[]]]\<rparr>"

text \<open>Two per-sequence results, as \<^verbatim>\<open>eval_sequence\<close> returns them.\<close>

definition two_results :: "(string \<times> id_res) list" where
  "two_results =
     [(''seq-a'', \<lparr>IDF1 = Some 1, IDR = Some 1, IDP = Some 1, IDTP = 2, IDFN = 0, IDFP = 0\<rparr>),
      (''seq-b'', \<lparr>IDF1 = Some 0, IDR = Some 0, IDP = Some 0, IDTP = 0, IDFN = 3, IDFP = 1\<rparr>)]"

text \<open>
  A ground-truth track of three detections and a tracker track of ten detections, three of
  them matched: the overlap ratio of the pair is \<open>3 / 10\<close>.
\<close>

definition boundary_data :: seq_data where
  "boundary_data =
     \<lparr>num_tracker_dets = 10, num_gt_dets = 3, num_gt_ids = 1, num_tracker_ids = 1,
      gt_ids = [[0], [0], [0], [], [], [], [], [], [], []],
      tracker_ids = [[0], [0], [0], [0], [0], [0], [0], [0], [0], [0]],
      similarity_scores = [[[1]], [[1]], [[1]], [], [], [], [], [], [], []]\<rparr>"

text \<open>
  The value of the Python literal \<^verbatim>\<open>0.3\<close>: the float64 nearest to \<open>3 / 10\<close>, which is
  below \<open>3 / 10\<close>.
\<close>

definition three_tenths :: real where
  "three_tenths = 5404319552844595 / 18014398509481984"

text \<open>Two ground-truth and two tracker identities over two timesteps.\<close>

definition two_by_two_data :: seq_data where
  "two_by_two_data =
     \<lparr>num_tracker_dets = 4, num_gt_dets = 4, num_gt_ids = 2, num_tracker_ids = 2,
      gt_ids = [[0, 1], [0, 1]], tracker_ids = [[0, 1], [0, 1]],
      similarity_scores = [[[9 / 10, 1 / 10], [2 / 10, 8 / 10]], [[7 / 10, 0], [0, 3 / 10]]]\<rparr>"

text \<open>
  A sequence whose timesteps all list the same identities: one similarity matrix per
  timestep, with the detection counts that belong to it.
\<close>

definition const_ids_data :: "nat \<Rightarrow> nat \<Rightarrow> nat list \<Rightarrow> nat list \<Rightarrow> real list list list \<Rightarrow> seq_data" where
  "const_ids_data G T gs ks sims =
     \<lparr>num_tracker_dets = length sims * length ks, num_gt_dets = length sims * length gs,
      num_gt_ids = G, num_tracker_ids = T,
      gt_ids = replicate (length sims) gs, tracker_ids = replicate (length sims) ks,
      similarity_scores = sims\<rparr>"

text \<open>The number of timesteps of the long sample sequences.\<close>

definition many :: nat where
  "many = 10 ^ 10"

text \<open>
  One ground-truth identity and two tracker identities, all present in each of \<open>10 ^ 10\<close>
  timesteps, with no similarity at or above the threshold.
\<close>

definition heavy_data :: seq_data where
  "heavy_data = const_ids_data 1 2 [0] [0, 1] (replicate many [[0, 0]])"

text \<open>Half the number of timesteps of the long two-phase sequence.\<close>

definition half :: nat where
  "half = 15 * 10 ^ 9"

text \<open>
  Two ground-truth identities and one tracker identity, all present in each of \<open>3e10\<close>
  timesteps. In the first half the tracker resembles ground-truth identity \<open>1\<close> with
  similarity \<open>0.6\<close>; elsewhere the similarity is \<open>0\<close>.
\<close>

definition split_data :: seq_data where
  "split_data =
     const_ids_data 2 1 [0, 1] [0] (replicate half [[0], [6 / 10]] @ replicate half [[0], [0]])"

section \<open>The derivation of the ratios\<close>

lemma np_div_max1: "np_div a (max 1 b) = Some (a / max 1 b)"
  by (simp add: np_div_def max_def)

lemma compute_final_fields_derive:
  "compute_final_fields res = spec_derive (IDTP res) (IDFN res) (IDFP res)"
proof (cases res)
  case (fields f1 r p tp fn fp)
  consider "fn = 0" "fp = 0" | "fn = 0" "fp \<noteq> 0" | "fn \<noteq> 0" "fp = 0" | "fn \<noteq> 0" "fp \<noteq> 0"
    by blast
  then show ?thesis
  proof cases
    case 1
    then show ?thesis
      by (simp add: fields compute_final_fields_def spec_derive_def spec_IDR_def spec_IDP_def
          spec_IDF1_def)
  next
    case 2
    then show ?thesis
      by (simp add: fields compute_final_fields_def np_div_max1 spec_derive_def spec_IDR_def
          spec_IDP_def spec_IDF1_def)
  next
    case 3
    then show ?thesis
      by (simp add: fields compute_final_fields_def np_div_max1 spec_derive_def spec_IDR_def
          spec_IDP_def spec_IDF1_def)
  next
    case 4
    then show ?thesis
      by (simp add: fields compute_final_fields_def np_div_max1 spec_derive_def spec_IDR_def
          spec_IDP_def spec_IDF1_def)
  qed
qed

text \<open>
  Claim C4. \<^verbatim>\<open>_compute_final_fields\<close> leaves the three counts as they are and sets
  \<open>IDR\<close>, \<open>IDP\<close> and \<open>IDF1\<close> to the values of the specification's derivation. The result
  holds for all integer counts (non-negative or not), and each ratio is a finite value
  \<open>Some x\<close>: no division of the function meets a zero divisor, since every divisor is
  \<open>max 1 d\<close>.
\<close>

theorem compute_final_fields_spec:
  "compute_final_fields res =
     res\<lparr>IDR := Some (spec_IDR (IDTP res) (IDFN res)),
         IDP := Some (spec_IDP (IDTP res) (IDFP res)),
         IDF1 := Some (spec_IDF1 (IDTP res) (IDFN res) (IDFP res))\<rparr>"
  by (cases res) (simp add: compute_final_fields_derive spec_derive_def)

theorem compute_final_fields_spec_witness:
  "compute_final_fields \<lparr>IDF1 = Some 0, IDR = Some 0, IDP = Some 0, IDTP = 3, IDFN = 1, IDFP = 2\<rparr>
     = \<lparr>IDF1 = Some (2 / 3), IDR = Some (3 / 4), IDP = Some (3 / 5), IDTP = 3, IDFN = 1, IDFP = 2\<rparr>"
  using compute_final_fields_spec
    [of "\<lparr>IDF1 = Some 0, IDR = Some 0, IDP = Some 0, IDTP = 3, IDFN = 1, IDFP = 2\<rparr>"]
  by (simp add: spec_IDR_def spec_IDP_def spec_IDF1_def)

section \<open>The shortcuts of the track-level metric\<close>

lemma empty_tracker_data_valid: "valid_data empty_tracker_data"
  by (simp add: valid_data_def shapes_ok_def ids_appear_def ids_distinct_def dets_counted_def
      empty_tracker_data_def frames_def enumerate_eq_zip)

text \<open>
  Claim C7. With no tracker detections \<^verbatim>\<open>TrackIdentity.eval_sequence\<close> returns
  \<open>IDFN = num_gt_ids\<close> and \<open>IDFP = IDTP = 0\<close>, but it returns the initial dictionary
  directly: the float fields keep their initial value \<open>0\<close>. On the sample sequence the
  returned \<open>IDP\<close> is \<open>0\<close>, where the derivation of the ratios gives \<open>1\<close> for these counts
  (the detection-level \<^verbatim>\<open>Identity.eval_sequence\<close> passes its shortcut results through
  \<^verbatim>\<open>_compute_final_fields\<close>).
\<close>

theorem track_shortcut_skips_final_fields:
  "track_eval_sequence lsa threshold track_iou_threshold empty_tracker_data
     = Inr \<lparr>IDF1 = Some 0, IDR = Some 0, IDP = Some 0, IDTP = 0, IDFN = 1, IDFP = 0\<rparr>
   \<and> spec_derive 0 1 0
     = \<lparr>IDF1 = Some 0, IDR = Some 0, IDP = Some 1, IDTP = 0, IDFN = 1, IDFP = 0\<rparr>"
  by (simp add: track_eval_sequence_def empty_tracker_data_def init_res_def spec_derive_def
      spec_IDP_def spec_IDR_def spec_IDF1_def)

section \<open>Combining sequences\<close>

lemma combine_sum_field_sum: "combine_sum all_res f = field_sum f all_res"
  by (simp add: combine_sum_def field_sum_def case_prod_unfold)

lemma np_mean_finite:
  assumes "all_res \<noteq> []" "\<forall>kv\<in>set all_res. f (snd kv) \<noteq> None"
  shows "np_mean (map (\<lambda>(k, v). f v) all_res) = Some (field_mean f all_res)"
proof -
  have n: "None \<notin> set (map (\<lambda>(k, v). f v) all_res)"
    using assms(2) by (auto simp: case_prod_unfold)
  have m: "map the (map (\<lambda>(k, v). f v) all_res) = map (\<lambda>kv. the (f (snd kv))) all_res"
    by (induction all_res) auto
  have e: "map (\<lambda>(k, v). f v) all_res \<noteq> []"
    using assms(1) by simp
  show ?thesis
    unfolding np_mean_def field_mean_def using n e by (simp only: m if_False length_map simp_thms)
qed

text \<open>
  Claim C8. \<^verbatim>\<open>TrackIdentity.combine_sequences\<close> sums the three integer fields over
  the given results in both modes. With \<open>micro\<close> the float fields are the derivation of
  the ratios applied to the sums; with \<open>macro\<close> each float field is the arithmetic mean
  of the per-sequence values (for at least one sequence, all of whose values are finite:
  the mean of no value is nan); any other mode string raises \<^verbatim>\<open>ValueError\<close>.
\<close>

theorem track_combine_sequences_modes:
  "(average = ''micro'' \<longrightarrow>
      track_combine_sequences all_res average =
        Inr (spec_derive (field_sum IDTP all_res) (field_sum IDFN all_res) (field_sum IDFP all_res)))
   \<and> (average = ''macro'' \<and> all_res \<noteq> []
        \<and> (\<forall>kv\<in>set all_res. IDF1 (snd kv) \<noteq> None \<and> IDR (snd kv) \<noteq> None \<and> IDP (snd kv) \<noteq> None) \<longrightarrow>
      track_combine_sequences all_res average =
        Inr \<lparr>IDF1 = Some (field_mean IDF1 all_res), IDR = Some (field_mean IDR all_res),
             IDP = Some (field_mean IDP all_res), IDTP = field_sum IDTP all_res,
             IDFN = field_sum IDFN all_res, IDFP = field_sum IDFP all_res\<rparr>)
   \<and> (average \<noteq> ''micro'' \<and> average \<noteq> ''macro'' \<longrightarrow>
      track_combine_sequences all_res average = Inl ValueError)"
proof (intro conjI impI)
  assume "average = ''micro''"
  then show "track_combine_sequences all_res average =
        Inr (spec_derive (field_sum IDTP all_res) (field_sum IDFN all_res) (field_sum IDFP all_res))"
    by (simp add: track_combine_sequences_def compute_final_fields_derive combine_sum_field_sum)
next
  assume a: "average = ''macro'' \<and> all_res \<noteq> []
        \<and> (\<forall>kv\<in>set all_res. IDF1 (snd kv) \<noteq> None \<and> IDR (snd kv) \<noteq> None \<and> IDP (snd kv) \<noteq> None)"
  then have "np_mean (map (\<lambda>(k, v). IDF1 v) all_res) = Some (field_mean IDF1 all_res)"
    "np_mean (map (\<lambda>(k, v). IDR v) all_res) = Some (field_mean IDR all_res)"
    "np_mean (map (\<lambda>(k, v). IDP v) all_res) = Some (field_mean IDP all_res)"
    by (simp_all add: np_mean_finite)
  with a show "track_combine_sequences all_res average =
        Inr \<lparr>IDF1 = Some (field_mean IDF1 all_res), IDR = Some (field_mean IDR all_res),
             IDP = Some (field_mean IDP all_res), IDTP = field_sum IDTP all_res,
             IDFN = field_sum IDFN all_res, IDFP = field_sum IDFP all_res\<rparr>"
    by (simp add: track_combine_sequences_def combine_sum_field_sum)
next
  assume "average \<noteq> ''micro'' \<and> average \<noteq> ''macro''"
  then show "track_combine_sequences all_res average = Inl ValueError"
    by (simp add: track_combine_sequences_def)
qed

theorem track_combine_sequences_modes_witness:
  "track_combine_sequences two_results ''micro''
     = Inr \<lparr>IDF1 = Some (1 / 2), IDR = Some (2 / 5), IDP = Some (2 / 3), IDTP = 2, IDFN = 3, IDFP = 1\<rparr>
   \<and> track_combine_sequences two_results ''macro''
     = Inr \<lparr>IDF1 = Some (1 / 2), IDR = Some (1 / 2), IDP = Some (1 / 2), IDTP = 2, IDFN = 3, IDFP = 1\<rparr>
   \<and> track_combine_sequences two_results ''mean'' = Inl ValueError"
  using track_combine_sequences_modes [of "''micro''" two_results]
    track_combine_sequences_modes [of "''macro''" two_results]
    track_combine_sequences_modes [of "''mean''" two_results]
  by (simp add: two_results_def field_sum_def field_mean_def spec_derive_def spec_IDR_def
      spec_IDP_def spec_IDF1_def)

section \<open>The accumulation loop\<close>

lemma matched_ids_in_range:
  assumes "\<forall>(i, j)\<in>set (nonzero_ge sim thr). i < length gs \<and> j < length ks"
    and "(g, k) \<in> set (matched_ids thr gs ks sim)"
  shows "g \<in> set gs \<and> k \<in> set ks"
proof -
  from assms(2) obtain i j where ij: "(i, j) \<in> set (nonzero_ge sim thr)" "g = gs ! i" "k = ks ! j"
    by (auto simp: matched_ids_def)
  with assms(1) have "i < length gs" "j < length ks" by auto
  with ij show ?thesis by simp
qed

lemma frame_step_eq:
  "frame_step thr G T (pm, gc, tc) gs ks sim =
     (if (\<forall>(i, j)\<in>set (nonzero_ge sim thr). i < length gs \<and> j < length ks) \<and>
         (\<forall>g\<in>set gs. g < G) \<and> (\<forall>k\<in>set ks. k < T)
      then Inr (\<lambda>g k. pm g k + (if (g, k) \<in> set (matched_ids thr gs ks sim) then 1 else 0),
                \<lambda>g. gc g + (if g \<in> set gs then 1 else 0),
                \<lambda>k. tc k + (if k \<in> set ks then 1 else 0))
      else Inl IndexError)"
proof (cases "(\<forall>(i, j)\<in>set (nonzero_ge sim thr). i < length gs \<and> j < length ks) \<and>
         (\<forall>g\<in>set gs. g < G) \<and> (\<forall>k\<in>set ks. k < T)")
  case True
  then have a: "\<forall>(i, j)\<in>set (nonzero_ge sim thr). i < length gs \<and> j < length ks"
    and b: "\<forall>g\<in>set gs. g < G" and c: "\<forall>k\<in>set ks. k < T"
    by blast+
  have 1: "\<not> (\<exists>(i, j)\<in>set (nonzero_ge sim thr). length gs \<le> i \<or> length ks \<le> j)"
    using a by (fastforce simp: not_le)
  have 2: "\<not> (\<exists>(g, t)\<in>set (matched_ids thr gs ks sim). G \<le> g \<or> T \<le> t)"
    using matched_ids_in_range [OF a] b c by (fastforce simp: not_le)
  have 3: "\<not> (\<exists>g\<in>set gs. G \<le> g)" using b by (fastforce simp: not_le)
  have 4: "\<not> (\<exists>t\<in>set ks. T \<le> t)" using c by (fastforce simp: not_le)
  show ?thesis
    unfolding frame_step_def by (simp only: 1 2 3 4 if_False prod.case if_P [OF True])
next
  case False
  then have "(\<exists>(i, j)\<in>set (nonzero_ge sim thr). length gs \<le> i \<or> length ks \<le> j)
      \<or> (\<exists>g\<in>set gs. G \<le> g) \<or> (\<exists>t\<in>set ks. T \<le> t)"
    by (fastforce simp: not_le not_less)
  then have "frame_step thr G T (pm, gc, tc) gs ks sim = Inl IndexError"
    unfolding frame_step_def by (auto simp only: prod.case if_True split: if_splits)
  then show ?thesis by (simp only: if_not_P [OF False])
qed

lemma accumulate_loop_eq:
  "accumulate_loop thr G T sims (pm, gc, tc) fs =
     (if \<forall>fr\<in>set fs. frame_ok thr G T sims fr
      then Inr (\<lambda>g k. pm g k + real (match_count thr sims fs g k),
                \<lambda>g. gc g + real (gt_count fs g),
                \<lambda>k. tc k + real (tracker_count fs k))
      else Inl IndexError)"
proof (induction fs arbitrary: pm gc tc)
  case Nil
  show ?case by (simp add: match_count_def gt_count_def tracker_count_def)
next
  case (Cons fr fs)
  obtain t gs ks where fr: "fr = (t, gs, ks)" by (cases fr) auto
  show ?case
  proof (cases "frame_ok thr G T sims fr")
    case False
    then show ?thesis
      by (auto simp: fr frame_ok_def frame_step_eq)
  next
    case True
    then have ok: "t < length sims"
      "(\<forall>(i, j)\<in>set (nonzero_ge (sims ! t) thr). i < length gs \<and> j < length ks) \<and>
         (\<forall>g\<in>set gs. g < G) \<and> (\<forall>k\<in>set ks. k < T)"
      by (auto simp: fr frame_ok_def)
    show ?thesis
      unfolding fr accumulate_loop.simps frame_step_eq
      using ok True Cons.IH
      by (auto simp: fr match_count_def gt_count_def tracker_count_def fun_eq_iff)
  qed
qed

lemma nonzero_ge_iff:
  "(i, j) \<in> set (nonzero_ge sim thr) \<longleftrightarrow> i < length sim \<and> j < length (sim ! i) \<and> thr \<le> sim ! i ! j"
  by (auto simp: nonzero_ge_def)

lemma frames_nth:
  "fr \<in> set (frames data) \<longleftrightarrow>
     (\<exists>t. t < length (gt_ids data) \<and> t < length (tracker_ids data) \<and>
          fr = (t, gt_ids data ! t, tracker_ids data ! t))"
proof -
  obtain t gs ks where fr: "fr = (t, gs, ks)" by (cases fr) auto
  show ?thesis
    unfolding frames_def in_set_enumerate_eq fr by auto
qed

lemma shapes_ok_frame_ok:
  assumes "shapes_ok data" "fr \<in> set (frames data)"
  shows "frame_ok thr (num_gt_ids data) (num_tracker_ids data) (similarity_scores data) fr"
proof -
  from assms(2) obtain t where t: "t < length (gt_ids data)" "t < length (tracker_ids data)"
    "fr = (t, gt_ids data ! t, tracker_ids data ! t)"
    by (auto simp: frames_nth)
  from assms(1) t(1) have s: "length (similarity_scores data) = length (gt_ids data)"
    "length (similarity_scores data ! t) = length (gt_ids data ! t)"
    "\<forall>row\<in>set (similarity_scores data ! t). length row = length (tracker_ids data ! t)"
    "\<forall>g\<in>set (gt_ids data ! t). g < num_gt_ids data"
    "\<forall>k\<in>set (tracker_ids data ! t). k < num_tracker_ids data"
    by (auto simp: shapes_ok_def)
  have "i < length (gt_ids data ! t) \<and> j < length (tracker_ids data ! t)"
    if "(i, j) \<in> set (nonzero_ge (similarity_scores data ! t) thr)" for i j
  proof -
    from that have i: "i < length (similarity_scores data ! t)"
      and j: "j < length (similarity_scores data ! t ! i)"
      by (auto simp: nonzero_ge_iff)
    from i have "similarity_scores data ! t ! i \<in> set (similarity_scores data ! t)" by simp
    with s(3) j have "j < length (tracker_ids data ! t)" by auto
    with i s(2) show ?thesis by simp
  qed
  with s t show ?thesis
    by (auto simp: frame_ok_def)
qed

lemma accumulate_eq:
  "accumulate thr data =
     (if \<forall>fr\<in>set (frames data).
           frame_ok thr (num_gt_ids data) (num_tracker_ids data) (similarity_scores data) fr
      then Inr (seq_tables thr data) else Inl IndexError)"
  by (simp add: accumulate_def accumulate_loop_eq seq_tables_def)

lemma accumulate_shapes_ok: "shapes_ok data \<Longrightarrow> accumulate thr data = Inr (seq_tables thr data)"
  by (simp add: accumulate_eq shapes_ok_frame_ok)

lemma accumulate_Inr:
  "accumulate thr data = Inr tabs \<Longrightarrow>
     tabs = seq_tables thr data \<and>
     (\<forall>fr\<in>set (frames data).
        frame_ok thr (num_gt_ids data) (num_tracker_ids data) (similarity_scores data) fr)"
  by (auto simp: accumulate_eq split: if_splits)

lemma match_count_le:
  assumes "\<forall>fr\<in>set fs. frame_ok thr G T sims fr"
  shows "match_count thr sims fs g k \<le> gt_count fs g"
    and "match_count thr sims fs g k \<le> tracker_count fs k"
proof -
  have "g \<in> set gs \<and> k \<in> set ks"
    if "(t, gs, ks) \<in> set fs" "(g, k) \<in> set (matched_ids thr gs ks (sims ! t))" for t gs ks
  proof -
    from assms that(1) have "\<forall>(i, j)\<in>set (nonzero_ge (sims ! t) thr). i < length gs \<and> j < length ks"
      by (auto simp: frame_ok_def)
    from matched_ids_in_range [OF this that(2)] show ?thesis .
  qed
  then have a: "filter (\<lambda>(t, gs, ks). (g, k) \<in> set (matched_ids thr gs ks (sims ! t))) fs
      = filter (\<lambda>(t, gs, ks). (g, k) \<in> set (matched_ids thr gs ks (sims ! t)))
          (filter (\<lambda>(t, gs, ks). g \<in> set gs) fs)"
    and b: "filter (\<lambda>(t, gs, ks). (g, k) \<in> set (matched_ids thr gs ks (sims ! t))) fs
      = filter (\<lambda>(t, gs, ks). (g, k) \<in> set (matched_ids thr gs ks (sims ! t)))
          (filter (\<lambda>(t, gs, ks). k \<in> set ks) fs)"
    by (auto intro!: filter_cong)
  show "match_count thr sims fs g k \<le> gt_count fs g"
    unfolding match_count_def gt_count_def by (subst a) (rule length_filter_le)
  show "match_count thr sims fs g k \<le> tracker_count fs k"
    unfolding match_count_def tracker_count_def by (subst b) (rule length_filter_le)
qed

lemma sum_indicator_distinct:
  assumes "distinct gs" "\<forall>g\<in>set gs. g < G"
  shows "(\<Sum>g\<leftarrow>[0..<G]. if g \<in> set gs then 1 else 0) = length gs"
proof -
  have "(\<Sum>g\<leftarrow>[0..<G]. if g \<in> set gs then 1 else 0) = (\<Sum>g\<in>{0..<G}. if g \<in> set gs then 1 else (0::nat))"
    by (simp add: sum_list_distinct_conv_sum_set)
  also have "\<dots> = card ({0..<G} \<inter> set gs)"
    by (simp add: sum.If_cases)
  also have "{0..<G} \<inter> set gs = set gs"
    using assms(2) by auto
  also have "card (set gs) = length gs"
    using assms(1) by (rule distinct_card)
  finally show ?thesis .
qed

section \<open>The cost matrices\<close>

lemma fn_rows_eq:
  "fn_rows G T gc own M i j =
     (if i < G then (if j < T then gc i else if j = T + i then own i else M i j) else M i j)"
proof (induction G)
  case 0
  show ?case by (simp add: fn_rows_def)
next
  case (Suc G)
  have "fn_rows (Suc G) T gc own M =
      set_cell (set_block (fn_rows G T gc own M) G (G + 1) 0 T (\<lambda>i j. gc G)) G (T + G) (own G)"
    by (simp add: fn_rows_def)
  then show ?case
    using Suc by (auto simp: set_cell_def set_block_def less_Suc_eq)
qed

lemma fp_cols_eq:
  "fp_cols G T tc own M i j =
     (if j < T then (if i < G then tc j else if i = j + G then own j else M i j) else M i j)"
proof (induction T)
  case 0
  show ?case by (simp add: fp_cols_def)
next
  case (Suc T)
  have "fp_cols G (Suc T) tc own M =
      set_cell (set_block (fp_cols G T tc own M) 0 G T (T + 1) (\<lambda>i j. tc T)) (T + G) T (own T)"
    by (simp add: fp_cols_def)
  then show ?case
    using Suc by (auto simp: set_cell_def set_block_def less_Suc_eq)
qed

lemma build_fn_mat_eq:
  "build_fn_mat pen own G T (pm, gc, tc) i j =
     (if i < G
      then (if j < T then gc i - pm i j
            else if j = T + i then own i
            else if j < G + T then pen else 0)
      else 0)"
  by (auto simp: build_fn_mat_def Let_def fn_rows_eq set_block_def)

lemma build_fp_mat_eq:
  "build_fp_mat pen own G T (pm, gc, tc) i j =
     (if j < T
      then (if i < G then tc j - pm i j
            else if i = j + G then own j
            else if i < G + T then pen else 0)
      else 0)"
  by (auto simp: build_fp_mat_def Let_def fp_cols_eq set_block_def)

lemma id_fn_mat_eq:
  "id_fn_mat G T (pm, gc, tc) i j =
     (if i < G
      then (if j < T then gc i - pm i j
            else if j = T + i then gc i
            else if j < G + T then penalty else 0)
      else 0)"
  by (simp add: id_fn_mat_def build_fn_mat_eq)

lemma id_fp_mat_eq:
  "id_fp_mat G T (pm, gc, tc) i j =
     (if j < T
      then (if i < G then tc j - pm i j
            else if i = j + G then tc j
            else if i < G + T then penalty else 0)
      else 0)"
  by (simp add: id_fp_mat_def build_fp_mat_eq)

section \<open>Counts of a well-formed sequence\<close>

lemma sum_count_sel:
  assumes "\<forall>fr\<in>set fs. distinct (sel fr) \<and> (\<forall>g\<in>set (sel fr). g < G)"
  shows "(\<Sum>g\<leftarrow>[0..<G]. length (filter (\<lambda>fr. g \<in> set (sel fr)) fs)) = (\<Sum>fr\<leftarrow>fs. length (sel fr))"
  using assms
proof (induction fs)
  case Nil
  show ?case by simp
next
  case (Cons fr fs)
  have "length (filter (\<lambda>fr. g \<in> set (sel fr)) (fr # fs))
      = (if g \<in> set (sel fr) then 1 else 0) + length (filter (\<lambda>fr. g \<in> set (sel fr)) fs)" for g
    by simp
  then have "(\<Sum>g\<leftarrow>[0..<G]. length (filter (\<lambda>fr. g \<in> set (sel fr)) (fr # fs)))
      = (\<Sum>g\<leftarrow>[0..<G]. if g \<in> set (sel fr) then 1 else 0)
        + (\<Sum>g\<leftarrow>[0..<G]. length (filter (\<lambda>fr. g \<in> set (sel fr)) fs))"
    by (simp only: sum_list_addf)
  also have "(\<Sum>g\<leftarrow>[0..<G]. if g \<in> set (sel fr) then 1 else 0) = length (sel fr)"
    using Cons.prems by (intro sum_indicator_distinct) auto
  finally show ?case
    using Cons by simp
qed

lemma frames_gt_ids:
  assumes "length (tracker_ids data) = length (gt_ids data)"
  shows "map (\<lambda>fr. fst (snd fr)) (frames data) = gt_ids data"
    and "map (\<lambda>fr. snd (snd fr)) (frames data) = tracker_ids data"
proof -
  have "map snd (frames data) = zip (gt_ids data) (tracker_ids data)"
    by (simp add: frames_def)
  then have "map fst (map snd (frames data)) = gt_ids data"
    "map snd (map snd (frames data)) = tracker_ids data"
    using assms by simp_all
  then show "map (\<lambda>fr. fst (snd fr)) (frames data) = gt_ids data"
    and "map (\<lambda>fr. snd (snd fr)) (frames data) = tracker_ids data"
    by (simp_all add: comp_def)
qed

lemma gt_count_sel: "gt_count fs g = length (filter (\<lambda>fr. g \<in> set (fst (snd fr))) fs)"
  by (simp add: gt_count_def case_prod_unfold)

lemma tracker_count_sel: "tracker_count fs k = length (filter (\<lambda>fr. k \<in> set (snd (snd fr))) fs)"
  by (simp add: tracker_count_def case_prod_unfold)

lemma valid_frames_distinct:
  assumes "valid_data data" "fr \<in> set (frames data)"
  shows "distinct (fst (snd fr)) \<and> (\<forall>g\<in>set (fst (snd fr)). g < num_gt_ids data)"
    and "distinct (snd (snd fr)) \<and> (\<forall>k\<in>set (snd (snd fr)). k < num_tracker_ids data)"
proof -
  from assms(2) obtain t where t: "t < length (gt_ids data)" "t < length (tracker_ids data)"
    "fr = (t, gt_ids data ! t, tracker_ids data ! t)"
    by (auto simp: frames_nth)
  from t have m: "gt_ids data ! t \<in> set (gt_ids data)" "tracker_ids data ! t \<in> set (tracker_ids data)"
    by simp_all
  from assms(1) m have d: "distinct (gt_ids data ! t)" "distinct (tracker_ids data ! t)"
    by (auto simp: valid_data_def ids_distinct_def)
  from assms(1) t(1) have r: "\<forall>g\<in>set (gt_ids data ! t). g < num_gt_ids data"
    "\<forall>k\<in>set (tracker_ids data ! t). k < num_tracker_ids data"
    by (auto simp: valid_data_def shapes_ok_def)
  from d r show "distinct (fst (snd fr)) \<and> (\<forall>g\<in>set (fst (snd fr)). g < num_gt_ids data)"
    and "distinct (snd (snd fr)) \<and> (\<forall>k\<in>set (snd (snd fr)). k < num_tracker_ids data)"
    by (simp_all add: t(3))
qed

lemma sum_counts_valid:
  assumes "valid_data data"
  shows "(\<Sum>g\<leftarrow>[0..<num_gt_ids data]. gt_count (frames data) g) = num_gt_dets data"
    and "(\<Sum>k\<leftarrow>[0..<num_tracker_ids data]. tracker_count (frames data) k) = num_tracker_dets data"
proof -
  from assms have len: "length (tracker_ids data) = length (gt_ids data)"
    by (simp add: valid_data_def shapes_ok_def)
  have "(\<Sum>g\<leftarrow>[0..<num_gt_ids data]. gt_count (frames data) g)
      = (\<Sum>fr\<leftarrow>frames data. length (fst (snd fr)))"
    unfolding gt_count_sel using valid_frames_distinct(1) [OF assms]
    by (intro sum_count_sel) blast
  also have "\<dots> = sum_list (map length (map (\<lambda>fr. fst (snd fr)) (frames data)))"
    by (simp add: comp_def)
  also have "\<dots> = num_gt_dets data"
    using assms by (simp only: frames_gt_ids [OF len]) (simp add: valid_data_def dets_counted_def)
  finally show "(\<Sum>g\<leftarrow>[0..<num_gt_ids data]. gt_count (frames data) g) = num_gt_dets data" .
  have "(\<Sum>k\<leftarrow>[0..<num_tracker_ids data]. tracker_count (frames data) k)
      = (\<Sum>fr\<leftarrow>frames data. length (snd (snd fr)))"
    unfolding tracker_count_sel using valid_frames_distinct(2) [OF assms]
    by (intro sum_count_sel) blast
  also have "\<dots> = sum_list (map length (map (\<lambda>fr. snd (snd fr)) (frames data)))"
    by (simp add: comp_def)
  also have "\<dots> = num_tracker_dets data"
    using assms by (simp only: frames_gt_ids [OF len]) (simp add: valid_data_def dets_counted_def)
  finally show "(\<Sum>k\<leftarrow>[0..<num_tracker_ids data]. tracker_count (frames data) k) = num_tracker_dets data" .
qed

lemma count_le_dets:
  assumes "valid_data data"
  shows "g < num_gt_ids data \<Longrightarrow> gt_count (frames data) g \<le> num_gt_dets data"
    and "k < num_tracker_ids data \<Longrightarrow> tracker_count (frames data) k \<le> num_tracker_dets data"
proof -
  show "gt_count (frames data) g \<le> num_gt_dets data" if "g < num_gt_ids data"
  proof -
    have "gt_count (frames data) g \<in> set (map (gt_count (frames data)) [0..<num_gt_ids data])"
      using that by simp
    then have "gt_count (frames data) g \<le> sum_list (map (gt_count (frames data)) [0..<num_gt_ids data])"
      by (simp add: member_le_sum_list)
    then show ?thesis by (simp only: sum_counts_valid(1) [OF assms])
  qed
  show "tracker_count (frames data) k \<le> num_tracker_dets data" if "k < num_tracker_ids data"
  proof -
    have "tracker_count (frames data) k \<in> set (map (tracker_count (frames data)) [0..<num_tracker_ids data])"
      using that by simp
    then have "tracker_count (frames data) k \<le> sum_list (map (tracker_count (frames data)) [0..<num_tracker_ids data])"
      by (simp add: member_le_sum_list)
    then show ?thesis by (simp only: sum_counts_valid(2) [OF assms])
  qed
qed

lemma ids_appear_pos:
  assumes "ids_appear data"
  shows "g < num_gt_ids data \<Longrightarrow> 1 \<le> gt_count (frames data) g"
    and "k < num_tracker_ids data \<Longrightarrow> 1 \<le> tracker_count (frames data) k"
proof -
  show "1 \<le> gt_count (frames data) g" if "g < num_gt_ids data"
  proof -
    from assms that have "\<exists>fr\<in>set (frames data). g \<in> set (fst (snd fr))"
      by (simp add: ids_appear_def)
    then obtain fr where "fr \<in> set (frames data)" "g \<in> set (fst (snd fr))"
      by blast
    then have "filter (\<lambda>fr. g \<in> set (fst (snd fr))) (frames data) \<noteq> []"
      by (auto simp: filter_empty_conv)
    then show ?thesis
      unfolding gt_count_sel by (simp add: Suc_le_eq)
  qed
  show "1 \<le> tracker_count (frames data) k" if "k < num_tracker_ids data"
  proof -
    from assms that have "\<exists>fr\<in>set (frames data). k \<in> set (snd (snd fr))"
      by (simp add: ids_appear_def)
    then obtain fr where "fr \<in> set (frames data)" "k \<in> set (snd (snd fr))"
      by blast
    then have "filter (\<lambda>fr. k \<in> set (snd (snd fr))) (frames data) \<noteq> []"
      by (auto simp: filter_empty_conv)
    then show ?thesis
      unfolding tracker_count_sel by (simp add: Suc_le_eq)
  qed
qed

section \<open>The cost matrix of the track-level metric\<close>

lemma track_cost_matrix_eq:
  "track_cost_matrix G T (pm, gc, tc) i j =
     (if G \<le> i \<and> i < G + T \<and> T \<le> j \<and> j < G + T then Some 1
      else if i < G \<and> j < T
      then np_div (gc i + tc j - 2 * pm i j) (gc i + tc j - pm i j)
      else if i < G
      then (if j = T + i then Some (1 - 1 / 10 ^ 6) else if j < G + T then Some 1 else Some 0)
      else if j < T
      then (if i = j + G then Some (1 - 1 / 10 ^ 6) else if i < G + T then Some 1 else Some 0)
      else Some 0)"
proof -
  have fn: "track_fn_mat G T (pm, gc, tc) i j =
      (if i < G
       then (if j < T then gc i - pm i j
             else if j = T + i then 1 - 1 / 10 ^ 6
             else if j < G + T then 1 else 0)
       else 0)"
    by (simp only: track_fn_mat_def build_fn_mat_eq)
  have fp: "track_fp_mat G T (pm, gc, tc) i j =
      (if j < T
       then (if i < G then tc j - pm i j
             else if i = j + G then 1 - 1 / 10 ^ 6
             else if i < G + T then 1 else 0)
       else 0)"
    by (simp only: track_fp_mat_def build_fp_mat_eq)
  have a: "gc i - pm i j + (tc j - pm i j) = gc i + tc j - 2 * pm i j"
    "gc i - pm i j + (tc j - pm i j) + pm i j = gc i + tc j - pm i j"
    by simp_all
  show ?thesis
    unfolding track_cost_matrix_def Let_def set_block_def fn fp fst_conv
    by (simp add: a)
qed

lemma seq_counts_bounds:
  assumes "accumulate thr data = Inr (pm, gc, tc)"
  shows "0 \<le> pm g t" "pm g t \<le> gc g" "pm g t \<le> tc t"
    and "\<exists>n::nat. pm g t = real n" "\<exists>n::nat. gc g = real n" "\<exists>n::nat. tc t = real n"
proof -
  from accumulate_Inr [OF assms]
  have tabs: "(pm, gc, tc) = seq_tables thr data"
    and ok: "\<forall>fr\<in>set (frames data).
        frame_ok thr (num_gt_ids data) (num_tracker_ids data) (similarity_scores data) fr"
    by blast+
  from tabs have pm: "pm g t = real (match_count thr (similarity_scores data) (frames data) g t)"
    and gc: "gc g = real (gt_count (frames data) g)"
    and tc: "tc t = real (tracker_count (frames data) t)"
    by (simp_all add: seq_tables_def)
  show "0 \<le> pm g t" by (simp add: pm)
  show "pm g t \<le> gc g" using match_count_le(1) [OF ok] by (simp add: pm gc)
  show "pm g t \<le> tc t" using match_count_le(2) [OF ok] by (simp add: pm tc)
  show "\<exists>n::nat. pm g t = real n" "\<exists>n::nat. gc g = real n" "\<exists>n::nat. tc t = real n"
    using pm gc tc by blast+
qed

lemma seq_counts_pos:
  assumes "accumulate thr data = Inr (pm, gc, tc)" "ids_appear data"
  shows "g < num_gt_ids data \<Longrightarrow> 1 \<le> gc g"
    and "t < num_tracker_ids data \<Longrightarrow> 1 \<le> tc t"
proof -
  from accumulate_Inr [OF assms(1)] have tabs: "(pm, gc, tc) = seq_tables thr data"
    by blast
  then have gc: "gc g = real (gt_count (frames data) g)"
    and tc: "tc t = real (tracker_count (frames data) t)"
    by (simp_all add: seq_tables_def)
  show "1 \<le> gc g" if "g < num_gt_ids data"
    using ids_appear_pos(1) [OF assms(2) that] by (simp add: gc)
  show "1 \<le> tc t" if "t < num_tracker_ids data"
    using ids_appear_pos(2) [OF assms(2) that] by (simp add: tc)
qed

text \<open>
  Claim C2. The matrix that \<^verbatim>\<open>TrackIdentity.eval_sequence\<close> hands to the solver. In a
  sequence whose declared identities all appear (so that every count is positive), every
  real cell \<open>(g, t)\<close> is \<open>raw / (raw + matchCount)\<close> with
  \<open>raw = gtCount + trackerCount - 2 matchCount\<close>, a value in \<open>[0, 1]\<close>. In every sequence,
  the own-sink cells \<open>(g, T + g)\<close> and \<open>(G + t, t)\<close> are \<open>1 - 1e-6\<close>; the sink cells of other
  identities \<open>(g, T + g')\<close> and \<open>(G + t, t')\<close> are \<open>1\<close>; the sink-to-sink cells are \<open>1\<close>.
\<close>

theorem track_cost_matrix_cells:
  assumes "accumulate thr data = Inr (pm, gc, tc)"
    and "G = num_gt_ids data" and "T = num_tracker_ids data"
    and "C = track_cost_matrix G T (pm, gc, tc)"
  shows "(ids_appear data \<longrightarrow>
          (\<forall>g<G. \<forall>t<T.
             C g t = Some ((gc g + tc t - 2 * pm g t) / ((gc g + tc t - 2 * pm g t) + pm g t))
             \<and> 0 \<le> (gc g + tc t - 2 * pm g t) / ((gc g + tc t - 2 * pm g t) + pm g t)
             \<and> (gc g + tc t - 2 * pm g t) / ((gc g + tc t - 2 * pm g t) + pm g t) \<le> 1))
    \<and> (\<forall>g<G. C g (T + g) = Some (1 - 1 / 10 ^ 6))
    \<and> (\<forall>t<T. C (G + t) t = Some (1 - 1 / 10 ^ 6))
    \<and> (\<forall>g<G. \<forall>g'<G. g' \<noteq> g \<longrightarrow> C g (T + g') = Some 1)
    \<and> (\<forall>t<T. \<forall>t'<T. t' \<noteq> t \<longrightarrow> C (G + t) t' = Some 1)
    \<and> (\<forall>t<T. \<forall>g<G. C (G + t) (T + g) = Some 1)"
proof -
  have 1: "C g t = Some ((gc g + tc t - 2 * pm g t) / ((gc g + tc t - 2 * pm g t) + pm g t))
      \<and> 0 \<le> (gc g + tc t - 2 * pm g t) / ((gc g + tc t - 2 * pm g t) + pm g t)
      \<and> (gc g + tc t - 2 * pm g t) / ((gc g + tc t - 2 * pm g t) + pm g t) \<le> 1"
    if a: "ids_appear data" and gt: "g < G" "t < T" for g t
  proof -
    define raw where "raw = gc g + tc t - 2 * pm g t"
    note b = seq_counts_bounds(1-3) [OF assms(1), of g t]
    from seq_counts_pos(1) [OF assms(1) a] gt(1) have p: "1 \<le> gc g"
      unfolding assms(2) by blast
    from b p have den: "0 < raw + pm g t"
      unfolding raw_def by linarith
    from b have raw: "0 \<le> raw"
      unfolding raw_def by linarith
    have eq: "raw + pm g t = gc g + tc t - pm g t"
      unfolding raw_def by simp
    have "C g t = Some (raw / (raw + pm g t))"
      using gt den unfolding assms(4) track_cost_matrix_eq eq [symmetric] raw_def [symmetric]
      by (simp add: np_div_def)
    moreover have "0 \<le> raw / (raw + pm g t)" "raw / (raw + pm g t) \<le> 1"
      using raw den b(1) by simp_all
    ultimately show ?thesis unfolding raw_def by blast
  qed
  have 2: "\<forall>g<G. C g (T + g) = Some (1 - 1 / 10 ^ 6)"
    "\<forall>t<T. C (G + t) t = Some (1 - 1 / 10 ^ 6)"
    "\<forall>g<G. \<forall>g'<G. g' \<noteq> g \<longrightarrow> C g (T + g') = Some 1"
    "\<forall>t<T. \<forall>t'<T. t' \<noteq> t \<longrightarrow> C (G + t) t' = Some 1"
    "\<forall>t<T. \<forall>g<G. C (G + t) (T + g) = Some 1"
    unfolding assms(4) track_cost_matrix_eq by simp_all
  from 1 2 show ?thesis by blast
qed

lemma two_by_two_valid: "valid_data two_by_two_data"
  by code_simp

lemma two_by_two_tables:
  "fst (seq_tables (1 / 2) two_by_two_data) 0 0 = 2"
  "fst (seq_tables (1 / 2) two_by_two_data) 0 1 = 0"
  "fst (seq_tables (1 / 2) two_by_two_data) 1 0 = 0"
  "fst (seq_tables (1 / 2) two_by_two_data) 1 1 = 1"
  "fst (snd (seq_tables (1 / 2) two_by_two_data)) 0 = 2"
  "fst (snd (seq_tables (1 / 2) two_by_two_data)) 1 = 2"
  "snd (snd (seq_tables (1 / 2) two_by_two_data)) 0 = 2"
  "snd (snd (seq_tables (1 / 2) two_by_two_data)) 1 = 2"
  by code_simp+

theorem track_cost_matrix_cells_witness:
  "accumulate (1 / 2) two_by_two_data = Inr (seq_tables (1 / 2) two_by_two_data)
   \<and> ids_appear two_by_two_data
   \<and> track_cost_matrix 2 2 (seq_tables (1 / 2) two_by_two_data) 1 1 = Some (2 / 3)
   \<and> track_cost_matrix 2 2 (seq_tables (1 / 2) two_by_two_data) 0 1 = Some 1
   \<and> track_cost_matrix 2 2 (seq_tables (1 / 2) two_by_two_data) 1 3 = Some (1 - 1 / 10 ^ 6)
   \<and> track_cost_matrix 2 2 (seq_tables (1 / 2) two_by_two_data) 3 1 = Some (1 - 1 / 10 ^ 6)
   \<and> track_cost_matrix 2 2 (seq_tables (1 / 2) two_by_two_data) 1 2 = Some 1
   \<and> track_cost_matrix 2 2 (seq_tables (1 / 2) two_by_two_data) 3 0 = Some 1
   \<and> track_cost_matrix 2 2 (seq_tables (1 / 2) two_by_two_data) 3 3 = Some 1"
proof -
  have v: "shapes_ok two_by_two_data" "ids_appear two_by_two_data"
    using two_by_two_valid by (simp_all add: valid_data_def)
  have a: "accumulate (1 / 2) two_by_two_data =
      Inr (fst (seq_tables (1 / 2) two_by_two_data), fst (snd (seq_tables (1 / 2) two_by_two_data)),
           snd (snd (seq_tables (1 / 2) two_by_two_data)))"
    using accumulate_shapes_ok [OF v(1)] by simp
  have h: "2 = num_gt_ids two_by_two_data" "2 = num_tracker_ids two_by_two_data"
    by (simp_all add: two_by_two_data_def)
  have c: "track_cost_matrix 2 2 (seq_tables (1 / 2) two_by_two_data)
      = track_cost_matrix 2 2 (fst (seq_tables (1 / 2) two_by_two_data), fst (snd (seq_tables (1 / 2) two_by_two_data)),
           snd (snd (seq_tables (1 / 2) two_by_two_data)))"
    by simp
  note w = track_cost_matrix_cells [OF a h refl, folded c]
  have i: "(0::nat) < 2" "(1::nat) < 2" "(0::nat) \<noteq> 1" by simp_all
  note w1 = w [THEN conjunct1, rule_format, OF v(2)]
  note w2 = w [THEN conjunct2, THEN conjunct1, rule_format]
  note w3 = w [THEN conjunct2, THEN conjunct2, THEN conjunct1, rule_format]
  note w4 = w [THEN conjunct2, THEN conjunct2, THEN conjunct2, THEN conjunct1, rule_format]
  note w5 = w [THEN conjunct2, THEN conjunct2, THEN conjunct2, THEN conjunct2, THEN conjunct1,
      rule_format]
  note w6 = w [THEN conjunct2, THEN conjunct2, THEN conjunct2, THEN conjunct2, THEN conjunct2,
      rule_format]
  have n: "(2::nat) + 1 = 3" "(2::nat) + 0 = 2" by simp_all
  have 1: "track_cost_matrix 2 2 (seq_tables (1 / 2) two_by_two_data) 1 1 = Some (2 / 3)"
    using w1 [OF i(2) i(2), THEN conjunct1] by (simp only: two_by_two_tables) simp
  have 2: "track_cost_matrix 2 2 (seq_tables (1 / 2) two_by_two_data) 0 1 = Some 1"
    using w1 [OF i(1) i(2), THEN conjunct1] by (simp only: two_by_two_tables) simp
  note 3 = w2 [OF i(2), unfolded n]
  note 4 = w3 [OF i(2), unfolded n]
  note 5 = w4 [OF i(2) i(1) i(3), unfolded n]
  note 6 = w5 [OF i(2) i(1) i(3), unfolded n]
  note 7 = w6 [OF i(2) i(2), unfolded n]
  from accumulate_shapes_ok [OF v(1)] v(2) 1 2 3 4 5 6 7 show ?thesis
    by (intro conjI)
qed

section \<open>Division safety of the track-level normalization\<close>

text \<open>
  Claim C10. In a sequence whose declared identities all appear in some timestep and whose
  timesteps list an identity at most once, every real cell \<open>(g, t)\<close> has
  \<open>matchCount \<le> min gtCount trackerCount\<close> and positive counts, so the divisor of the
  elementwise division, \<^verbatim>\<open>cost_matrix[g, t] + potential_matches_count[g, t]\<close>
  \<open>= gtCount + trackerCount - matchCount\<close>, is at least \<open>1\<close>, and the normalized cell is a
  finite value.
\<close>

theorem track_division_safe:
  assumes "accumulate thr data = Inr (pm, gc, tc)"
    and "ids_appear data" and "ids_distinct data"
    and "g < num_gt_ids data" and "t < num_tracker_ids data"
    and "G = num_gt_ids data" and "T = num_tracker_ids data"
  shows "pm g t \<le> min (gc g) (tc t) \<and> 1 \<le> gc g \<and> 1 \<le> tc t
    \<and> track_fn_mat G T (pm, gc, tc) g t + track_fp_mat G T (pm, gc, tc) g t + pm g t
        = gc g + tc t - pm g t
    \<and> 1 \<le> gc g + tc t - pm g t
    \<and> track_cost_matrix G T (pm, gc, tc) g t \<noteq> None"
proof -
  note b = seq_counts_bounds(1-3) [OF assms(1), of g t]
  note p = seq_counts_pos(1) [OF assms(1,2,4)] seq_counts_pos(2) [OF assms(1,2,5)]
  have 1: "pm g t \<le> min (gc g) (tc t)" using b by simp
  have 2: "track_fn_mat G T (pm, gc, tc) g t + track_fp_mat G T (pm, gc, tc) g t + pm g t
        = gc g + tc t - pm g t"
    using assms(4,5) unfolding assms(6,7) track_fn_mat_def track_fp_mat_def build_fn_mat_eq build_fp_mat_eq
    by simp
  have 3: "1 \<le> gc g + tc t - pm g t" using b p by linarith
  then have 4: "track_cost_matrix G T (pm, gc, tc) g t \<noteq> None"
    using assms(4,5) unfolding assms(6,7) track_cost_matrix_eq by (simp add: np_div_def)
  from 1 2 3 4 p show ?thesis by blast
qed

theorem track_division_safe_witness:
  "accumulate (1 / 2) two_by_two_data = Inr (seq_tables (1 / 2) two_by_two_data)
   \<and> ids_appear two_by_two_data \<and> ids_distinct two_by_two_data
   \<and> track_fn_mat 2 2 (seq_tables (1 / 2) two_by_two_data) 1 1
      + track_fp_mat 2 2 (seq_tables (1 / 2) two_by_two_data) 1 1
      + fst (seq_tables (1 / 2) two_by_two_data) 1 1 = 3
   \<and> track_cost_matrix 2 2 (seq_tables (1 / 2) two_by_two_data) 1 1 \<noteq> None"
proof -
  have v: "shapes_ok two_by_two_data" "ids_appear two_by_two_data" "ids_distinct two_by_two_data"
    using two_by_two_valid by (simp_all add: valid_data_def)
  have a: "accumulate (1 / 2) two_by_two_data =
      Inr (fst (seq_tables (1 / 2) two_by_two_data), fst (snd (seq_tables (1 / 2) two_by_two_data)),
           snd (snd (seq_tables (1 / 2) two_by_two_data)))"
    using accumulate_shapes_ok [OF v(1)] by simp
  have h: "(1::nat) < num_gt_ids two_by_two_data" "(1::nat) < num_tracker_ids two_by_two_data"
    "2 = num_gt_ids two_by_two_data" "2 = num_tracker_ids two_by_two_data"
    by (simp_all add: two_by_two_data_def)
  note w = track_division_safe [OF a v(2) v(3) h]
  show ?thesis
    using w v(2) v(3) accumulate_shapes_ok [OF v(1)]
    by (simp only: two_by_two_tables prod.collapse) simp
qed

section \<open>Rounding to float64\<close>

lemma doublings_step: "0 < n \<Longrightarrow> x < 1 \<Longrightarrow> doublings n x = Suc (doublings (n - 1) (2 * x))"
  by (cases n) simp_all

lemma doublings_stop: "1 \<le> x \<Longrightarrow> doublings n x = 0"
  by (cases n) simp_all

lemma halvings_step: "0 < n \<Longrightarrow> 2 \<le> x \<Longrightarrow> halvings n x = Suc (halvings (n - 1) (x / 2))"
  by (cases n) simp_all

lemma halvings_stop: "x < 2 \<Longrightarrow> halvings n x = 0"
  by (cases n) simp_all

lemmas f64_eval = f64_div_def f64_round_def f64_nearest_def f64_ulp_def f64_exponent_def
  round_half_even_def doublings_step doublings_stop halvings_step halvings_stop Let_def

lemma doublings_antimono: "x \<le> y \<Longrightarrow> doublings n y \<le> doublings n x"
  by (induction n arbitrary: x y) auto

lemma halvings_mono: "x \<le> y \<Longrightarrow> halvings n x \<le> halvings n y"
  by (induction n arbitrary: x y) auto

lemma f64_exponent_mono: "x \<le> y \<Longrightarrow> f64_exponent x \<le> f64_exponent y"
  using doublings_antimono [of x y 1022] halvings_mono [of x y 1024]
  by (auto simp: f64_exponent_def)

lemma f64_ulp_powi: "f64_ulp x = 2 powi (f64_exponent x - 52)"
  by (simp add: f64_ulp_def power_int_def Let_def field_simps)

lemma f64_ulp_pos: "0 < f64_ulp x"
  by (simp add: f64_ulp_powi)

lemma f64_ulp_mono:
  assumes "x \<le> y"
  shows "f64_ulp y = 2 ^ nat (f64_exponent y - f64_exponent x) * f64_ulp x"
proof -
  from f64_exponent_mono [OF assms] have k: "0 \<le> f64_exponent y - f64_exponent x" by simp
  have "f64_ulp y = 2 powi ((f64_exponent y - f64_exponent x) + (f64_exponent x - 52))"
    by (simp add: f64_ulp_powi)
  also have "\<dots> = 2 powi (f64_exponent y - f64_exponent x) * 2 powi (f64_exponent x - 52)"
    by (rule power_int_add) simp
  also have "2 powi (f64_exponent y - f64_exponent x) = (2::real) ^ nat (f64_exponent y - f64_exponent x)"
    using k by (simp add: power_int_def)
  finally show ?thesis by (simp add: f64_ulp_powi)
qed

lemma round_half_even_le: "q \<le> real_of_int K \<Longrightarrow> round_half_even q \<le> K"
  by (auto simp: round_half_even_def Let_def) linarith+

lemma round_half_even_nonneg: "0 \<le> q \<Longrightarrow> 0 \<le> round_half_even q"
  by (auto simp: round_half_even_def Let_def)

text \<open>
  Rounding does not cross a float64: a non-negative real at or below the float64 \<open>y\<close> is
  rounded to a float64 at or below \<open>y\<close>.
\<close>

lemma f64_nearest_le:
  assumes "is_f64 y" and "0 \<le> x" and "x \<le> y"
  shows "f64_nearest x \<le> y"
proof -
  from assms have y0: "0 \<le> y" by simp
  with assms(1) have y: "f64_nearest y = y"
    by (auto simp: is_f64_def f64_round_def Let_def split: if_splits)
  define M where "M = round_half_even (y / f64_ulp y)"
  define k where "k = nat (f64_exponent y - f64_exponent x)"
  have yM: "y = real_of_int (M * 2 ^ k) * f64_ulp x"
    using y f64_ulp_mono [OF assms(3)] by (simp add: f64_nearest_def M_def k_def)
  have "x \<le> real_of_int (M * 2 ^ k) * f64_ulp x"
    using assms(3) by (simp only: yM [symmetric])
  then have "x / f64_ulp x \<le> real_of_int (M * 2 ^ k)"
    using f64_ulp_pos [of x] by (simp only: pos_divide_le_eq)
  then have "round_half_even (x / f64_ulp x) \<le> M * 2 ^ k" by (rule round_half_even_le)
  then have "real_of_int (round_half_even (x / f64_ulp x)) \<le> real_of_int (M * 2 ^ k)"
    by linarith
  then have "f64_nearest x \<le> real_of_int (M * 2 ^ k) * f64_ulp x"
    unfolding f64_nearest_def using f64_ulp_pos [of x] by (simp only: mult_le_cancel_right_pos)
  then show ?thesis by (simp only: yM [symmetric])
qed

lemma f64_nearest_nonneg: "0 \<le> x \<Longrightarrow> 0 \<le> f64_nearest x"
  using round_half_even_nonneg [of "x / f64_ulp x"] f64_ulp_pos [of x]
  by (simp add: f64_nearest_def)

lemma is_f64_finite: "is_f64 y \<Longrightarrow> y < 2 ^ 1024"
  by (auto simp: is_f64_def f64_round_def Let_def split: if_splits)

lemma f64_round_le:
  assumes "is_f64 y" and "0 \<le> x" and "x \<le> y"
  shows "\<exists>q. f64_round x = Some q \<and> 0 \<le> q \<and> q \<le> y"
proof -
  from f64_nearest_le [OF assms] is_f64_finite [OF assms(1)]
  have "f64_nearest x < 2 ^ 1024" "f64_nearest x \<le> y" by linarith+
  with assms(2) f64_nearest_nonneg [OF assms(2)] show ?thesis
    by (simp add: f64_round_def Let_def)
qed

lemma is_f64_one: "is_f64 1"
  by (simp add: is_f64_def f64_eval)

lemma f64_div_unit:
  assumes "0 \<le> a" and "a \<le> b" and "0 < b"
  shows "\<exists>q. f64_div a b = Some q \<and> 0 \<le> q \<and> q \<le> 1"
  using f64_round_le [OF is_f64_one, of "a / b"] assms by (simp add: f64_div_def)

lemma f64_div_le:
  assumes "is_f64 y" and "0 \<le> a" and "0 < b" and "a / b \<le> y"
  shows "\<exists>q. f64_div a b = Some q \<and> q \<le> y"
  using f64_round_le [OF assms(1), of "a / b"] assms(2-4) by (auto simp: f64_div_def)

lemma f64_div_exact: "is_f64 (a / b) \<Longrightarrow> b \<noteq> 0 \<Longrightarrow> f64_div a b = Some (a / b)"
  by (simp add: f64_div_def is_f64_def)

section \<open>Rejection of matched pairs in the track-level metric\<close>

lemma track_cost_matrix_finite:
  assumes "accumulate thr data = Inr tabs" and "ids_appear data"
  shows "track_cost_matrix (num_gt_ids data) (num_tracker_ids data) tabs i j \<noteq> None"
proof -
  obtain pm gc tc where tabs: "tabs = (pm, gc, tc)" by (cases tabs) auto
  show ?thesis
  proof (cases "i < num_gt_ids data \<and> j < num_tracker_ids data")
    case True
    note b = seq_counts_bounds(1-3) [OF assms(1) [unfolded tabs], of i j]
    from True seq_counts_pos(1) [OF assms(1) [unfolded tabs] assms(2)] have "1 \<le> gc i" by blast
    with b have "gc i + tc j - pm i j \<noteq> 0" by linarith
    with True show ?thesis
      unfolding tabs track_cost_matrix_eq by (simp add: np_div_def del: not_None_eq)
  next
    case False
    then show ?thesis
      unfolding tabs track_cost_matrix_eq by (simp del: not_None_eq)
  qed
qed

lemma length_filter_sum_list:
  "int (length (filter P xs)) = (\<Sum>x\<leftarrow>xs. if P x then 1 else 0)"
  by (induction xs) simp_all

lemma track_units:
  shows "int (gt_to_sink G T pairs) + int (re_assigned G T tabs iou pairs)
      = (\<Sum>p\<leftarrow>pairs. fn_units G T tabs iou p)"
    and "int (sink_to_tracker G T pairs) + int (re_assigned G T tabs iou pairs)
      = (\<Sum>p\<leftarrow>pairs. fp_units G T tabs iou p)"
proof -
  have r: "ratio_le (fst tabs r c) (snd (snd tabs) c) iou = rejected tabs iou r c" for r c
    by (simp add: ratio_le_def rejected_def)
  have re: "int (re_assigned G T tabs iou pairs)
      = (\<Sum>p\<leftarrow>pairs. case p of (r, c) \<Rightarrow> if r < G \<and> c < T \<and> rejected tabs iou r c then 1 else 0)"
    unfolding re_assigned_def filter_filter length_filter_sum_list
    by (rule arg_cong [where f = sum_list], rule map_cong) (auto simp: r split: if_splits)
  have gs: "int (gt_to_sink G T pairs)
      = (\<Sum>p\<leftarrow>pairs. case p of (r, c) \<Rightarrow> if r < G \<and> T \<le> c then 1 else 0)"
    unfolding gt_to_sink_def length_filter_sum_list
    by (rule arg_cong [where f = sum_list], rule map_cong) (auto split: if_splits)
  have st: "int (sink_to_tracker G T pairs)
      = (\<Sum>p\<leftarrow>pairs. case p of (r, c) \<Rightarrow> if G \<le> r \<and> c < T then 1 else 0)"
    unfolding sink_to_tracker_def length_filter_sum_list
    by (rule arg_cong [where f = sum_list], rule map_cong) (auto split: if_splits)
  show "int (gt_to_sink G T pairs) + int (re_assigned G T tabs iou pairs)
      = (\<Sum>p\<leftarrow>pairs. fn_units G T tabs iou p)"
    unfolding gs re sum_list_addf [symmetric]
    by (rule arg_cong [where f = sum_list], rule map_cong) (auto simp: fn_units_def split: if_splits)
  show "int (sink_to_tracker G T pairs) + int (re_assigned G T tabs iou pairs)
      = (\<Sum>p\<leftarrow>pairs. fp_units G T tabs iou p)"
    unfolding st re sum_list_addf [symmetric]
    by (rule arg_cong [where f = sum_list], rule map_cong) (auto simp: fp_units_def split: if_splits)
qed

lemma track_eval_sequence_main:
  assumes "num_tracker_dets data \<noteq> 0" and "num_gt_dets data \<noteq> 0"
    and "accumulate thr data = Inr tabs" and "ids_appear data"
    and "G = num_gt_ids data" and "T = num_tracker_ids data"
    and "lsa (G + T) (\<lambda>i j. the (track_cost_matrix G T tabs i j)) = (rows, cols)"
    and "length rows = length cols"
  shows "track_eval_sequence lsa thr iou data =
     Inr (spec_derive
           (int G - (int (gt_to_sink G T (zip rows cols)) + int (re_assigned G T tabs iou (zip rows cols))))
           (int (gt_to_sink G T (zip rows cols)) + int (re_assigned G T tabs iou (zip rows cols)))
           (int (sink_to_tracker G T (zip rows cols)) + int (re_assigned G T tabs iou (zip rows cols))))"
proof -
  have fin: "\<not> (\<exists>i\<in>set [0..<G + T]. \<exists>j\<in>set [0..<G + T]. track_cost_matrix G T tabs i j = None)"
    using track_cost_matrix_finite [OF assms(3,4)] unfolding assms(5,6) by blast
  show ?thesis
    unfolding track_eval_sequence_def Let_def assms(5) [symmetric] assms(6) [symmetric]
    using assms(1,2,8) fin
    by (simp add: assms(3) assms(7) compute_final_fields_derive init_res_def)
qed

lemma assignments_iff:
  "p \<in> set (assignments n) \<longleftrightarrow> length p = n \<and> distinct p \<and> set p \<subseteq> {0..<n}"
  by (auto simp: assignments_def set_n_lists)

lemma lsa_ok_shape:
  assumes "lsa_ok n C rc"
  shows "fst rc = [0..<n]" "length (snd rc) = n" "distinct (snd rc)" "set (snd rc) \<subseteq> {0..<n}"
  using assms by (simp_all add: lsa_ok_def assignments_iff)

text \<open>
  Claim C5. For the matching that the solver returns, \<open>IDFN\<close> is the number of pairs that
  send a ground-truth row to a sink column plus the number of rejected real pairs, and
  \<open>IDFP\<close> is the number of pairs that send a sink row to a tracker column plus the same
  number of rejected real pairs. The ratio of a matched real pair \<open>(g, t)\<close> is the float64
  quotient \<open>q\<close> that the program computes from \<open>matchCount[g, t]\<close> and \<open>trackerCount[t]\<close>; it
  is a finite value. The pair adds one unit to both counts if \<open>q \<le> TRACK_IOU_THRESH\<close>
  (equality included) and nothing to either if \<open>q\<close> is above the threshold. The quotient
  \<open>q\<close> is the exact ratio whenever that is a float64, and a pair whose exact ratio is at or
  below a float64 threshold is always rejected.
\<close>

theorem track_rejection_boundary:
  assumes "num_tracker_dets data \<noteq> 0" and "num_gt_dets data \<noteq> 0"
    and "accumulate thr data = Inr (pm, gc, tc)" and "ids_appear data"
    and "G = num_gt_ids data" and "T = num_tracker_ids data"
    and "C = (\<lambda>i j. the (track_cost_matrix G T (pm, gc, tc) i j))"
    and "lsa_ok (G + T) C (lsa (G + T) C)"
    and "pairs = zip (fst (lsa (G + T) C)) (snd (lsa (G + T) C))"
  shows "\<exists>res. track_eval_sequence lsa thr iou data = Inr res
      \<and> IDFN res = (\<Sum>p\<leftarrow>pairs. fn_units G T (pm, gc, tc) iou p)
      \<and> IDFP res = (\<Sum>p\<leftarrow>pairs. fp_units G T (pm, gc, tc) iou p)
      \<and> IDTP res = int G - IDFN res
      \<and> (\<forall>(g, t)\<in>set pairs. g < G \<and> t < T \<longrightarrow>
            (\<exists>q. f64_div (pm g t) (tc t) = Some q
               \<and> (is_f64 (pm g t / tc t) \<longrightarrow> q = pm g t / tc t)
               \<and> fn_units G T (pm, gc, tc) iou (g, t) = (if q \<le> iou then 1 else 0)
               \<and> fp_units G T (pm, gc, tc) iou (g, t) = (if q \<le> iou then 1 else 0))
            \<and> (is_f64 iou \<and> pm g t / tc t \<le> iou \<longrightarrow>
                  fn_units G T (pm, gc, tc) iou (g, t) = 1
                  \<and> fp_units G T (pm, gc, tc) iou (g, t) = 1))"
proof -
  obtain rows cols where rc: "lsa (G + T) C = (rows, cols)" by (cases "lsa (G + T) C") auto
  from lsa_ok_shape(1,2) [OF assms(8)] have len: "length rows = length cols"
    by (simp add: rc)
  note m = track_eval_sequence_main [where lsa = lsa and rows = rows and cols = cols and iou = iou,
      OF assms(1-6) rc [unfolded assms(7)] len]
  note u = track_units [where G = G and T = T and tabs = "(pm, gc, tc)" and iou = iou
      and pairs = "zip rows cols"]
  have p: "pairs = zip rows cols" by (simp add: assms(9) rc)
  define X where "X = (\<lambda>g t.
      (\<exists>q. f64_div (pm g t) (tc t) = Some q
         \<and> (is_f64 (pm g t / tc t) \<longrightarrow> q = pm g t / tc t)
         \<and> fn_units G T (pm, gc, tc) iou (g, t) = (if q \<le> iou then 1 else 0)
         \<and> fp_units G T (pm, gc, tc) iou (g, t) = (if q \<le> iou then 1 else 0))
      \<and> (is_f64 iou \<and> pm g t / tc t \<le> iou \<longrightarrow>
            fn_units G T (pm, gc, tc) iou (g, t) = 1
            \<and> fp_units G T (pm, gc, tc) iou (g, t) = 1))"
  have cell: "X g t" if gt: "g < G" "t < T" for g t
  proof -
    note b = seq_counts_bounds(1,3) [OF assms(3), of g t]
    from seq_counts_pos(2) [OF assms(3,4)] gt(2) have "1 \<le> tc t"
      unfolding assms(6) by blast
    then have pos: "0 < tc t" by linarith
    from f64_div_unit [OF b pos] obtain q where q: "f64_div (pm g t) (tc t) = Some q" by blast
    have ex: "is_f64 (pm g t / tc t) \<longrightarrow> q = pm g t / tc t"
    proof
      assume "is_f64 (pm g t / tc t)"
      from f64_div_exact [OF this] pos have "f64_div (pm g t) (tc t) = Some (pm g t / tc t)"
        by simp
      with q show "q = pm g t / tc t" by simp
    qed
    have rej: "rejected (pm, gc, tc) iou g t = (q \<le> iou)"
      using q by (simp add: rejected_def)
    have units: "fn_units G T (pm, gc, tc) iou (g, t) = (if q \<le> iou then 1 else 0)"
      "fp_units G T (pm, gc, tc) iou (g, t) = (if q \<le> iou then 1 else 0)"
      using gt by (simp_all add: fn_units_def fp_units_def rej)
    have le: "q \<le> iou" if "is_f64 iou" "pm g t / tc t \<le> iou"
      using f64_div_le [OF that(1) b(1) pos that(2)] q by simp
    from q ex units
    have 1: "\<exists>q. f64_div (pm g t) (tc t) = Some q
         \<and> (is_f64 (pm g t / tc t) \<longrightarrow> q = pm g t / tc t)
         \<and> fn_units G T (pm, gc, tc) iou (g, t) = (if q \<le> iou then 1 else 0)
         \<and> fp_units G T (pm, gc, tc) iou (g, t) = (if q \<le> iou then 1 else 0)"
      by (intro exI [of _ q] conjI)
    have 2: "is_f64 iou \<and> pm g t / tc t \<le> iou \<longrightarrow>
            fn_units G T (pm, gc, tc) iou (g, t) = 1
            \<and> fp_units G T (pm, gc, tc) iou (g, t) = 1"
      using le by (simp add: units)
    from 1 2 show ?thesis unfolding X_def by (rule conjI)
  qed
  have all: "\<forall>(g, t)\<in>set pairs. g < G \<and> t < T \<longrightarrow> X g t"
    using cell by auto
  from m obtain res where res: "track_eval_sequence lsa thr iou data = Inr res"
    "IDFN res = (\<Sum>p\<leftarrow>pairs. fn_units G T (pm, gc, tc) iou p)"
    "IDFP res = (\<Sum>p\<leftarrow>pairs. fp_units G T (pm, gc, tc) iou p)"
    "IDTP res = int G - IDFN res"
    unfolding p u by (simp add: spec_derive_def)
  from res all [unfolded X_def] show ?thesis
    by (intro exI [of _ res] conjI)
qed

lemma boundary_valid: "valid_data boundary_data"
  by code_simp

lemma boundary_tables:
  "fst (seq_tables (1 / 2) boundary_data) 0 0 = 3"
  "fst (snd (seq_tables (1 / 2) boundary_data)) 0 = 3"
  "snd (snd (seq_tables (1 / 2) boundary_data)) 0 = 10"
  by code_simp+

lemma boundary_solver:
  "lsa_ok (1 + 1) (\<lambda>i j. the (track_cost_matrix 1 1 (fst (seq_tables (1 / 2) boundary_data),
          fst (snd (seq_tables (1 / 2) boundary_data)), snd (snd (seq_tables (1 / 2) boundary_data))) i j))
      (diagonal_solver (1 + 1) (\<lambda>i j. the (track_cost_matrix 1 1 (fst (seq_tables (1 / 2) boundary_data),
          fst (snd (seq_tables (1 / 2) boundary_data)), snd (snd (seq_tables (1 / 2) boundary_data))) i j)))"
  by code_simp

lemma boundary_quotient: "f64_div 3 10 = Some three_tenths"
  by (simp add: f64_eval three_tenths_def)

lemma boundary_pairs:
  "zip (fst (diagonal_solver (1 + 1) C)) (snd (diagonal_solver (1 + 1) C)) = [(0, 0), (1, 1)]"
  by (simp add: diagonal_solver_def upt_rec)

lemma boundary_units:
  "(\<Sum>p\<leftarrow>[(0, 0), (1, 1)].
      fn_units 1 1 (fst (seq_tables (1 / 2) boundary_data),
          fst (snd (seq_tables (1 / 2) boundary_data)), snd (snd (seq_tables (1 / 2) boundary_data)))
        three_tenths p) = 1"
  "(\<Sum>p\<leftarrow>[(0, 0), (1, 1)].
      fp_units 1 1 (fst (seq_tables (1 / 2) boundary_data),
          fst (snd (seq_tables (1 / 2) boundary_data)), snd (snd (seq_tables (1 / 2) boundary_data)))
        three_tenths p) = 1"
  by (simp_all add: fn_units_def fp_units_def rejected_def boundary_tables boundary_quotient)

lemma boundary_units_low:
  "(\<Sum>p\<leftarrow>[(0, 0), (1, 1)].
      fn_units 1 1 (fst (seq_tables (1 / 2) boundary_data),
          fst (snd (seq_tables (1 / 2) boundary_data)), snd (snd (seq_tables (1 / 2) boundary_data)))
        (1 / 4) p) = 0"
  "(\<Sum>p\<leftarrow>[(0, 0), (1, 1)].
      fp_units 1 1 (fst (seq_tables (1 / 2) boundary_data),
          fst (snd (seq_tables (1 / 2) boundary_data)), snd (snd (seq_tables (1 / 2) boundary_data)))
        (1 / 4) p) = 0"
  by (simp_all add: fn_units_def fp_units_def rejected_def boundary_tables boundary_quotient
      three_tenths_def)

theorem track_rejection_boundary_witness:
  "three_tenths < 3 / 10 \<and> f64_div 3 10 = Some three_tenths
   \<and> (\<exists>res. track_eval_sequence diagonal_solver (1 / 2) three_tenths boundary_data = Inr res
        \<and> IDFN res = 1 \<and> IDFP res = 1 \<and> IDTP res = 0)
   \<and> (\<exists>res. track_eval_sequence diagonal_solver (1 / 2) (1 / 4) boundary_data = Inr res
        \<and> IDFN res = 0 \<and> IDFP res = 0 \<and> IDTP res = 1)"
proof -
  have v: "shapes_ok boundary_data" "ids_appear boundary_data"
    using boundary_valid by (simp_all add: valid_data_def)
  have a: "accumulate (1 / 2) boundary_data =
      Inr (fst (seq_tables (1 / 2) boundary_data), fst (snd (seq_tables (1 / 2) boundary_data)),
           snd (snd (seq_tables (1 / 2) boundary_data)))"
    using accumulate_shapes_ok [OF v(1)] by simp
  have h: "num_tracker_dets boundary_data \<noteq> 0" "num_gt_dets boundary_data \<noteq> 0"
    "1 = num_gt_ids boundary_data" "1 = num_tracker_ids boundary_data"
    by (simp_all add: boundary_data_def)
  have t: "three_tenths < 3 / 10" by (simp add: three_tenths_def)
  note w = track_rejection_boundary [where lsa = diagonal_solver and iou = three_tenths,
      OF h(1,2) a v(2) h(3,4) refl boundary_solver refl]
  from w [unfolded boundary_pairs boundary_units] have 1:
    "\<exists>res. track_eval_sequence diagonal_solver (1 / 2) three_tenths boundary_data = Inr res
        \<and> IDFN res = 1 \<and> IDFP res = 1 \<and> IDTP res = 0"
    by (elim exE conjE, intro exI conjI) simp_all
  note w' = track_rejection_boundary [where lsa = diagonal_solver and iou = "1 / 4",
      OF h(1,2) a v(2) h(3,4) refl boundary_solver refl]
  from w' [unfolded boundary_pairs boundary_units_low] have 2:
    "\<exists>res. track_eval_sequence diagonal_solver (1 / 2) (1 / 4) boundary_data = Inr res
        \<and> IDFN res = 0 \<and> IDFP res = 0 \<and> IDTP res = 1"
    by (elim exE conjE, intro exI conjI) simp_all
  from t boundary_quotient 1 2 show ?thesis by (intro conjI)
qed

section \<open>The detection-level metric\<close>

lemma astype_int_of_int: "astype_int (real_of_int k) = k"
  by (simp add: astype_int_def)

lemma astype_int_Ints: "x \<in> \<int> \<Longrightarrow> real_of_int (astype_int x) = x"
  by (auto simp: astype_int_def elim!: Ints_cases)

lemma sum_list_Ints: "(\<forall>x\<in>set xs. f x \<in> \<int>) \<Longrightarrow> (\<Sum>x\<leftarrow>xs. f x) \<in> (\<int> :: real set)"
  by (induction xs) auto

lemma seq_tables_Ints:
  assumes "accumulate thr data = Inr (pm, gc, tc)"
  shows "pm g t \<in> \<int>" "gc g \<in> \<int>" "tc t \<in> \<int>"
proof -
  from seq_counts_bounds(4) [OF assms, of g t] show "pm g t \<in> \<int>" by auto
  from seq_counts_bounds(5) [OF assms, of g] show "gc g \<in> \<int>" by auto
  from seq_counts_bounds(6) [OF assms, of t] show "tc t \<in> \<int>" by auto
qed

lemma penalty_Ints: "penalty \<in> \<int>"
  by (simp add: penalty_def)

lemma id_mats_Ints:
  assumes "accumulate thr data = Inr tabs"
  shows "id_fn_mat G T tabs i j \<in> \<int>" "id_fp_mat G T tabs i j \<in> \<int>"
proof -
  obtain pm gc tc where tabs: "tabs = (pm, gc, tc)" by (cases tabs) auto
  note z = seq_tables_Ints [OF assms [unfolded tabs]]
  show "id_fn_mat G T tabs i j \<in> \<int>"
    unfolding tabs id_fn_mat_eq using z penalty_Ints by auto
  show "id_fp_mat G T tabs i j \<in> \<int>"
    unfolding tabs id_fp_mat_eq using z penalty_Ints by auto
qed

lemma penalty_pos: "0 < penalty"
  by (simp add: penalty_def)

lemma id_mats_nonneg:
  assumes "accumulate thr data = Inr tabs"
  shows "0 \<le> id_fn_mat G T tabs i j" "0 \<le> id_fp_mat G T tabs i j"
proof -
  obtain pm gc tc where tabs: "tabs = (pm, gc, tc)" by (cases tabs) auto
  note b = seq_counts_bounds(1-3) [OF assms [unfolded tabs]]
  have g: "0 \<le> gc g" "0 \<le> tc t" "0 \<le> gc g - pm g t" "0 \<le> tc t - pm g t" for g t
    using b [of g t] by linarith+
  show "0 \<le> id_fn_mat G T tabs i j"
    unfolding tabs id_fn_mat_eq using g penalty_pos by auto
  show "0 \<le> id_fp_mat G T tabs i j"
    unfolding tabs id_fp_mat_eq using g penalty_pos by auto
qed

lemma fancy_sum_ok:
  assumes "length rows = length cols" "\<forall>r\<in>set rows. r < n" "\<forall>c\<in>set cols. c < n"
  shows "fancy_sum n M rows cols = Inr (\<Sum>(r, c)\<leftarrow>zip rows cols. M r c)"
  using assms by (auto simp: fancy_sum_def not_le)

lemma eval_sequence_main:
  assumes "num_tracker_dets data \<noteq> 0" and "num_gt_dets data \<noteq> 0"
    and "accumulate thr data = Inr tabs"
    and "G = num_gt_ids data" and "T = num_tracker_ids data"
    and "lsa (G + T) (id_cost_matrix G T tabs) = (rows, cols)"
    and "length rows = length cols" and "\<forall>r\<in>set rows. r < G + T" and "\<forall>c\<in>set cols. c < G + T"
    and "fn_sum = (\<Sum>(r, c)\<leftarrow>zip rows cols. id_fn_mat G T tabs r c)"
    and "fp_sum = (\<Sum>(r, c)\<leftarrow>zip rows cols. id_fp_mat G T tabs r c)"
  shows "eval_sequence lsa thr data =
     Inr (spec_derive
           (astype_int (sum_list (map (fst (snd tabs)) [0..<G]) - real_of_int (astype_int fn_sum)))
           (astype_int fn_sum) (astype_int fp_sum))"
proof -
  have c: "lsa (G + T) (\<lambda>i j. id_fn_mat G T tabs i j + id_fp_mat G T tabs i j) = (rows, cols)"
    using assms(6) by (simp add: id_cost_matrix_def)
  show ?thesis
    unfolding eval_sequence_def Let_def assms(4) [symmetric] assms(5) [symmetric]
    using assms(1,2)
    by (simp add: assms(3) c fancy_sum_ok [OF assms(7-9)] compute_final_fields_derive
        init_res_def assms(10,11))
qed

lemma eval_sequence_shortcuts:
  "num_tracker_dets data = 0 \<Longrightarrow>
     eval_sequence lsa thr data = Inr (spec_derive 0 (int (num_gt_dets data)) 0)"
  "num_tracker_dets data \<noteq> 0 \<Longrightarrow> num_gt_dets data = 0 \<Longrightarrow>
     eval_sequence lsa thr data = Inr (spec_derive 0 0 (int (num_tracker_dets data)))"
  by (simp_all add: eval_sequence_def compute_final_fields_derive init_res_def)

lemma real_sum_list: "real (sum_list (map f xs)) = (\<Sum>x\<leftarrow>xs. real (f x))"
  by (induction xs) simp_all

lemma sum_gt_tables:
  assumes "valid_data data" and "accumulate thr data = Inr tabs"
  shows "sum_list (map (fst (snd tabs)) [0..<num_gt_ids data]) = real (num_gt_dets data)"
    and "sum_list (map (snd (snd tabs)) [0..<num_tracker_ids data]) = real (num_tracker_dets data)"
proof -
  from accumulate_Inr [OF assms(2)] have tabs: "tabs = seq_tables thr data" by blast
  have "sum_list (map (fst (snd tabs)) [0..<num_gt_ids data])
      = real (\<Sum>g\<leftarrow>[0..<num_gt_ids data]. gt_count (frames data) g)"
    by (simp add: tabs seq_tables_def real_sum_list)
  then show "sum_list (map (fst (snd tabs)) [0..<num_gt_ids data]) = real (num_gt_dets data)"
    by (simp only: sum_counts_valid(1) [OF assms(1)])
  have "sum_list (map (snd (snd tabs)) [0..<num_tracker_ids data])
      = real (\<Sum>k\<leftarrow>[0..<num_tracker_ids data]. tracker_count (frames data) k)"
    by (simp add: tabs seq_tables_def real_sum_list)
  then show "sum_list (map (snd (snd tabs)) [0..<num_tracker_ids data]) = real (num_tracker_dets data)"
    by (simp only: sum_counts_valid(2) [OF assms(1)])
qed

lemma id_sums_Ints:
  assumes "accumulate thr data = Inr tabs"
  shows "(\<Sum>(r, c)\<leftarrow>pairs. id_fn_mat G T tabs r c) \<in> \<int>"
    and "(\<Sum>(r, c)\<leftarrow>pairs. id_fp_mat G T tabs r c) \<in> \<int>"
  using id_mats_Ints [OF assms] by (auto intro!: sum_list_Ints)

text \<open>
  Claim C3. For a well-formed sequence, \<^verbatim>\<open>Identity.eval_sequence\<close> returns a result with
  \<open>IDTP + IDFN = num_gt_dets\<close> and \<open>IDTP = num_gt_dets - IDFN\<close>, in the two shortcut branches
  as well; outside the shortcuts \<open>IDFN\<close> is the sum of \<^verbatim>\<open>fn_mat\<close> and \<open>IDFP\<close> the sum of
  \<^verbatim>\<open>fp_mat\<close> over the pairs of the solver's matching.
\<close>

theorem eval_sequence_gt_accounted:
  assumes "valid_data data" and "accumulate thr data = Inr tabs"
    and "G = num_gt_ids data" and "T = num_tracker_ids data"
    and "lsa_ok (G + T) (id_cost_matrix G T tabs) (lsa (G + T) (id_cost_matrix G T tabs))"
    and "pairs = zip (fst (lsa (G + T) (id_cost_matrix G T tabs)))
                     (snd (lsa (G + T) (id_cost_matrix G T tabs)))"
  shows "\<exists>res. eval_sequence lsa thr data = Inr res
      \<and> IDTP res + IDFN res = int (num_gt_dets data)
      \<and> IDTP res = int (num_gt_dets data) - IDFN res
      \<and> (num_tracker_dets data \<noteq> 0 \<and> num_gt_dets data \<noteq> 0 \<longrightarrow>
           real_of_int (IDFN res) = (\<Sum>(r, c)\<leftarrow>pairs. id_fn_mat G T tabs r c) \<and>
           real_of_int (IDFP res) = (\<Sum>(r, c)\<leftarrow>pairs. id_fp_mat G T tabs r c))"
proof (cases "num_tracker_dets data \<noteq> 0 \<and> num_gt_dets data \<noteq> 0")
  case False
  then consider "num_tracker_dets data = 0" | "num_tracker_dets data \<noteq> 0" "num_gt_dets data = 0"
    by blast
  then show ?thesis
  proof cases
    case 1
    with eval_sequence_shortcuts(1) [OF 1, of lsa thr] show ?thesis
      by (simp add: spec_derive_def)
  next
    case 2
    with eval_sequence_shortcuts(2) [OF 2, of lsa thr] show ?thesis
      by (simp add: spec_derive_def)
  qed
next
  case True
  obtain rows cols where rc: "lsa (G + T) (id_cost_matrix G T tabs) = (rows, cols)"
    by (cases "lsa (G + T) (id_cost_matrix G T tabs)") auto
  from lsa_ok_shape [OF assms(5)] have sh: "rows = [0..<G + T]" "length cols = G + T"
    "set cols \<subseteq> {0..<G + T}"
    by (simp_all add: rc)
  have len: "length rows = length cols" "\<forall>r\<in>set rows. r < G + T" "\<forall>c\<in>set cols. c < G + T"
    using sh by auto
  have p: "pairs = zip rows cols" by (simp add: assms(6) rc)
  define fn_sum where "fn_sum = (\<Sum>(r, c)\<leftarrow>zip rows cols. id_fn_mat G T tabs r c)"
  define fp_sum where "fp_sum = (\<Sum>(r, c)\<leftarrow>zip rows cols. id_fp_mat G T tabs r c)"
  from True have t: "num_tracker_dets data \<noteq> 0" "num_gt_dets data \<noteq> 0" by blast+
  note m = eval_sequence_main [where lsa = lsa, OF t assms(2,3,4) rc len fn_sum_def fp_sum_def]
  have fnz: "real_of_int (astype_int fn_sum) = fn_sum" "real_of_int (astype_int fp_sum) = fp_sum"
    unfolding fn_sum_def fp_sum_def using id_sums_Ints [OF assms(2)] by (simp_all add: astype_int_Ints)
  have "sum_list (map (fst (snd tabs)) [0..<G]) - real_of_int (astype_int fn_sum)
      = real_of_int (int (num_gt_dets data) - astype_int fn_sum)"
    unfolding assms(3) sum_gt_tables(1) [OF assms(1,2)] by simp
  then have tp: "astype_int (sum_list (map (fst (snd tabs)) [0..<G]) - real_of_int (astype_int fn_sum))
      = int (num_gt_dets data) - astype_int fn_sum"
    by (simp only: astype_int_of_int)
  show ?thesis
    unfolding m tp p using fnz
    by (simp add: spec_derive_def fn_sum_def fp_sum_def)
qed

lemma two_by_two_solver:
  "lsa_ok (2 + 2) (id_cost_matrix 2 2 (seq_tables (1 / 2) two_by_two_data))
     (diagonal_solver (2 + 2) (id_cost_matrix 2 2 (seq_tables (1 / 2) two_by_two_data)))"
  by code_simp

lemma two_by_two_sums:
  "(\<Sum>(r, c)\<leftarrow>zip (fst (diagonal_solver (2 + 2) (id_cost_matrix 2 2 (seq_tables (1 / 2) two_by_two_data))))
        (snd (diagonal_solver (2 + 2) (id_cost_matrix 2 2 (seq_tables (1 / 2) two_by_two_data)))).
      id_fn_mat 2 2 (seq_tables (1 / 2) two_by_two_data) r c) = 1"
  "(\<Sum>(r, c)\<leftarrow>zip (fst (diagonal_solver (2 + 2) (id_cost_matrix 2 2 (seq_tables (1 / 2) two_by_two_data))))
        (snd (diagonal_solver (2 + 2) (id_cost_matrix 2 2 (seq_tables (1 / 2) two_by_two_data)))).
      id_fp_mat 2 2 (seq_tables (1 / 2) two_by_two_data) r c) = 1"
  by code_simp+

theorem eval_sequence_gt_accounted_witness:
  "\<exists>res. eval_sequence diagonal_solver (1 / 2) two_by_two_data = Inr res
      \<and> IDTP res = 3 \<and> IDFN res = 1 \<and> IDFP res = 1"
proof -
  have v: "shapes_ok two_by_two_data"
    using two_by_two_valid by (simp add: valid_data_def)
  have h: "2 = num_gt_ids two_by_two_data" "2 = num_tracker_ids two_by_two_data"
    "num_tracker_dets two_by_two_data \<noteq> 0 \<and> num_gt_dets two_by_two_data \<noteq> 0"
    "int (num_gt_dets two_by_two_data) = 4"
    by (simp_all add: two_by_two_data_def)
  note w = eval_sequence_gt_accounted [where lsa = diagonal_solver,
      OF two_by_two_valid accumulate_shapes_ok [OF v] h(1,2) two_by_two_solver refl]
  from w [unfolded two_by_two_sums h(4)] h(3) show ?thesis
    by auto
qed

section \<open>The cost matrix of the detection-level metric\<close>

lemma const_ids_frames:
  "frames (const_ids_data G T gs ks sims) = map (\<lambda>t. (t, gs, ks)) [0..<length sims]"
proof -
  have "enumerate 0 (replicate n (gs, ks)) = map (\<lambda>t. (t, gs, ks)) [0..<n]" for n
    by (rule nth_equalityI) (simp_all add: nth_enumerate_eq)
  then show ?thesis
    by (simp add: frames_def const_ids_data_def zip_replicate)
qed

lemma const_ids_counts:
  "gt_count (frames (const_ids_data G T gs ks sims)) g = (if g \<in> set gs then length sims else 0)"
  "tracker_count (frames (const_ids_data G T gs ks sims)) k = (if k \<in> set ks then length sims else 0)"
  "match_count thr sims (frames (const_ids_data G T gs ks sims)) g k
     = length (filter (\<lambda>s. (g, k) \<in> set (matched_ids thr gs ks s)) sims)"
proof -
  show "gt_count (frames (const_ids_data G T gs ks sims)) g = (if g \<in> set gs then length sims else 0)"
    by (simp add: gt_count_def const_ids_frames filter_map comp_def)
  show "tracker_count (frames (const_ids_data G T gs ks sims)) k = (if k \<in> set ks then length sims else 0)"
    by (simp add: tracker_count_def const_ids_frames filter_map comp_def)
  have "length (filter (\<lambda>t. (g, k) \<in> set (matched_ids thr gs ks (sims ! t))) [0..<length sims])
      = length (filter (\<lambda>s. (g, k) \<in> set (matched_ids thr gs ks s)) (map (nth sims) [0..<length sims]))"
    by (simp add: filter_map comp_def)
  then show "match_count thr sims (frames (const_ids_data G T gs ks sims)) g k
     = length (filter (\<lambda>s. (g, k) \<in> set (matched_ids thr gs ks s)) sims)"
    by (simp add: match_count_def const_ids_frames filter_map comp_def map_nth)
qed

lemma const_ids_tables:
  "seq_tables thr (const_ids_data G T gs ks sims) =
     (\<lambda>g k. real (length (filter (\<lambda>s. (g, k) \<in> set (matched_ids thr gs ks s)) sims)),
      \<lambda>g. real (if g \<in> set gs then length sims else 0),
      \<lambda>k. real (if k \<in> set ks then length sims else 0))"
proof -
  have s: "similarity_scores (const_ids_data G T gs ks sims) = sims"
    by (simp add: const_ids_data_def)
  show ?thesis
    unfolding seq_tables_def s const_ids_counts ..
qed

lemma const_ids_valid:
  assumes "distinct gs" "distinct ks" "set gs = {0..<G}" "set ks = {0..<T}" "sims \<noteq> []"
    and "\<forall>s\<in>set sims. length s = length gs \<and> (\<forall>row\<in>set s. length row = length ks)"
  shows "valid_data (const_ids_data G T gs ks sims)"
proof -
  have sh: "shapes_ok (const_ids_data G T gs ks sims)"
    using assms(3,4,6) by (auto simp: shapes_ok_def const_ids_data_def)
  have fr: "set (frames (const_ids_data G T gs ks sims)) \<noteq> {}"
    using assms(5) by (simp add: const_ids_frames)
  have ap: "ids_appear (const_ids_data G T gs ks sims)"
  proof -
    from assms(5) have "(0, gs, ks) \<in> set (frames (const_ids_data G T gs ks sims))"
      by (auto simp: const_ids_frames)
    then show ?thesis
      unfolding ids_appear_def using assms(3,4)
      by (auto simp: const_ids_data_def intro!: bexI [where x = "(0, gs, ks)"])
  qed
  have di: "ids_distinct (const_ids_data G T gs ks sims)"
    using assms(1,2) by (simp add: ids_distinct_def const_ids_data_def)
  have dc: "dets_counted (const_ids_data G T gs ks sims)"
    by (simp add: dets_counted_def const_ids_data_def map_replicate_const sum_list_replicate)
  from sh ap di dc show ?thesis by (simp add: valid_data_def)
qed

lemma heavy_valid: "valid_data heavy_data"
proof -
  have "many \<noteq> 0" by (simp add: many_def)
  then show ?thesis
    unfolding heavy_data_def by (intro const_ids_valid) auto
qed

lemma heavy_no_match: "(g, k) \<notin> set (matched_ids (1 / 2) [0] [0, 1] [[0, 0]])"
  by (simp add: matched_ids_def nonzero_ge_def)

lemma heavy_tables:
  "seq_tables (1 / 2) heavy_data =
     (\<lambda>g k. 0, \<lambda>g. real (if g \<in> set [0] then many else 0),
      \<lambda>k. real (if k \<in> set [0, 1] then many else 0))"
  unfolding heavy_data_def const_ids_tables filter_replicate
  by (simp only: heavy_no_match if_False list.size of_nat_0 length_replicate)

text \<open>
  Claim C1, amended. The matrix \<^verbatim>\<open>fn_mat + fp_mat\<close> that \<^verbatim>\<open>Identity.eval_sequence\<close> hands
  to the solver: every real cell \<open>(g, t)\<close> has \<open>fn = gtCount - matchCount\<close>,
  \<open>fp = trackerCount - matchCount\<close> and cost \<open>gtCount + trackerCount - 2 matchCount\<close>; the
  own-sink cells \<open>(g, T + g)\<close> and \<open>(G + t, t)\<close> cost \<open>gtCount\<close> and \<open>trackerCount\<close>; the
  sink-to-sink cells cost \<open>0\<close>; the cells that pair a sink with another identity,
  \<open>(g, T + g')\<close> and \<open>(G + t, t')\<close>, hold the literal \<open>1e10\<close>. The literal exceeds every other
  cell when the well-formed sequence has fewer than \<open>1e10\<close> detections in total.
\<close>

theorem id_cost_matrix_cells:
  assumes "accumulate thr data = Inr (pm, gc, tc)"
    and "G = num_gt_ids data" and "T = num_tracker_ids data"
    and "C = id_cost_matrix G T (pm, gc, tc)"
  shows "(\<forall>g<G. \<forall>t<T. id_fn_mat G T (pm, gc, tc) g t = gc g - pm g t
            \<and> id_fp_mat G T (pm, gc, tc) g t = tc t - pm g t
            \<and> C g t = gc g + tc t - 2 * pm g t)
    \<and> (\<forall>g<G. C g (T + g) = gc g)
    \<and> (\<forall>t<T. C (G + t) t = tc t)
    \<and> (\<forall>t<T. \<forall>g<G. C (G + t) (T + g) = 0)
    \<and> (\<forall>g<G. \<forall>g'<G. g' \<noteq> g \<longrightarrow> C g (T + g') = 10 ^ 10)
    \<and> (\<forall>t<T. \<forall>t'<T. t' \<noteq> t \<longrightarrow> C (G + t) t' = 10 ^ 10)
    \<and> (valid_data data \<and> real (num_gt_dets data + num_tracker_dets data) < 10 ^ 10 \<longrightarrow>
          (\<forall>g<G. \<forall>t<T. C g t < 10 ^ 10) \<and> (\<forall>g<G. C g (T + g) < 10 ^ 10)
          \<and> (\<forall>t<T. C (G + t) t < 10 ^ 10) \<and> (\<forall>t<T. \<forall>g<G. C (G + t) (T + g) < 10 ^ 10))"
proof -
  have cells: "\<forall>g<G. \<forall>t<T. id_fn_mat G T (pm, gc, tc) g t = gc g - pm g t
            \<and> id_fp_mat G T (pm, gc, tc) g t = tc t - pm g t
            \<and> C g t = gc g + tc t - 2 * pm g t"
    "\<forall>g<G. C g (T + g) = gc g" "\<forall>t<T. C (G + t) t = tc t"
    "\<forall>t<T. \<forall>g<G. C (G + t) (T + g) = 0"
    "\<forall>g<G. \<forall>g'<G. g' \<noteq> g \<longrightarrow> C g (T + g') = 10 ^ 10"
    "\<forall>t<T. \<forall>t'<T. t' \<noteq> t \<longrightarrow> C (G + t) t' = 10 ^ 10"
    unfolding assms(4) id_cost_matrix_def id_fn_mat_eq id_fp_mat_eq penalty_def
    by simp_all
  have dom: "(\<forall>g<G. \<forall>t<T. C g t < 10 ^ 10) \<and> (\<forall>g<G. C g (T + g) < 10 ^ 10)
          \<and> (\<forall>t<T. C (G + t) t < 10 ^ 10) \<and> (\<forall>t<T. \<forall>g<G. C (G + t) (T + g) < 10 ^ 10)"
    if v: "valid_data data" and small: "real (num_gt_dets data + num_tracker_dets data) < 10 ^ 10"
  proof -
    from accumulate_Inr [OF assms(1)] have tabs: "(pm, gc, tc) = seq_tables thr data" by blast
    have gc: "gc g \<le> real (num_gt_dets data)" if "g < G" for g
    proof -
      from tabs have "gc g = real (gt_count (frames data) g)" by (simp add: seq_tables_def)
      with count_le_dets(1) [OF v] that show ?thesis unfolding assms(2) by simp
    qed
    have tc: "tc t \<le> real (num_tracker_dets data)" if "t < T" for t
    proof -
      from tabs have "tc t = real (tracker_count (frames data) t)" by (simp add: seq_tables_def)
      with count_le_dets(2) [OF v] that show ?thesis unfolding assms(3) by simp
    qed
    have "C g t < 10 ^ 10" if "g < G" "t < T" for g t
      using cells(1) that gc [OF that(1)] tc [OF that(2)] seq_counts_bounds(1) [OF assms(1), of g t] small
      by simp
    moreover have "C g (T + g) < 10 ^ 10" if "g < G" for g
      using cells(2) that gc [OF that] small by simp
    moreover have "C (G + t) t < 10 ^ 10" if "t < T" for t
      using cells(3) that tc [OF that] small by simp
    moreover have "C (G + t) (T + g) < 10 ^ 10" if "t < T" "g < G" for g t
      using cells(4) that by simp
    ultimately show ?thesis by blast
  qed
  from cells dom show ?thesis by blast
qed

theorem id_cost_matrix_cells_witness:
  "accumulate (1 / 2) two_by_two_data = Inr (seq_tables (1 / 2) two_by_two_data)
   \<and> valid_data two_by_two_data
   \<and> id_cost_matrix 2 2 (seq_tables (1 / 2) two_by_two_data) 1 1 = 2
   \<and> id_cost_matrix 2 2 (seq_tables (1 / 2) two_by_two_data) 0 1 = 4
   \<and> id_cost_matrix 2 2 (seq_tables (1 / 2) two_by_two_data) 1 3 = 2
   \<and> id_cost_matrix 2 2 (seq_tables (1 / 2) two_by_two_data) 3 1 = 2
   \<and> id_cost_matrix 2 2 (seq_tables (1 / 2) two_by_two_data) 3 3 = 0
   \<and> id_cost_matrix 2 2 (seq_tables (1 / 2) two_by_two_data) 1 2 = 10 ^ 10
   \<and> id_cost_matrix 2 2 (seq_tables (1 / 2) two_by_two_data) 3 0 = 10 ^ 10
   \<and> id_cost_matrix 2 2 (seq_tables (1 / 2) two_by_two_data) 0 1 < 10 ^ 10"
proof -
  have v: "shapes_ok two_by_two_data"
    using two_by_two_valid by (simp add: valid_data_def)
  have a: "accumulate (1 / 2) two_by_two_data =
      Inr (fst (seq_tables (1 / 2) two_by_two_data), fst (snd (seq_tables (1 / 2) two_by_two_data)),
           snd (snd (seq_tables (1 / 2) two_by_two_data)))"
    using accumulate_shapes_ok [OF v] by simp
  have h: "2 = num_gt_ids two_by_two_data" "2 = num_tracker_ids two_by_two_data"
    by (simp_all add: two_by_two_data_def)
  have small: "real (num_gt_dets two_by_two_data + num_tracker_dets two_by_two_data) < 10 ^ 10"
    by (simp add: two_by_two_data_def)
  have c: "id_cost_matrix 2 2 (seq_tables (1 / 2) two_by_two_data)
      = id_cost_matrix 2 2 (fst (seq_tables (1 / 2) two_by_two_data), fst (snd (seq_tables (1 / 2) two_by_two_data)),
           snd (snd (seq_tables (1 / 2) two_by_two_data)))"
    by simp
  note w = id_cost_matrix_cells [OF a h refl, folded c]
  have i: "(0::nat) < 2" "(1::nat) < 2" "(0::nat) \<noteq> 1" by simp_all
  note w1 = w [THEN conjunct1, rule_format]
  note w2 = w [THEN conjunct2, THEN conjunct1, rule_format]
  note w3 = w [THEN conjunct2, THEN conjunct2, THEN conjunct1, rule_format]
  note w4 = w [THEN conjunct2, THEN conjunct2, THEN conjunct2, THEN conjunct1, rule_format]
  note w5 = w [THEN conjunct2, THEN conjunct2, THEN conjunct2, THEN conjunct2, THEN conjunct1,
      rule_format]
  note w6 = w [THEN conjunct2, THEN conjunct2, THEN conjunct2, THEN conjunct2, THEN conjunct2,
      THEN conjunct1, rule_format]
  note w7 = w [THEN conjunct2, THEN conjunct2, THEN conjunct2, THEN conjunct2, THEN conjunct2,
      THEN conjunct2, rule_format, OF conjI, OF two_by_two_valid small]
  have n: "(2::nat) + 1 = 3" "(2::nat) + 0 = 2" by simp_all
  have 1: "id_cost_matrix 2 2 (seq_tables (1 / 2) two_by_two_data) 1 1 = 2"
    using w1 [OF i(2) i(2), THEN conjunct2, THEN conjunct2] by (simp only: two_by_two_tables; simp?)
  have 2: "id_cost_matrix 2 2 (seq_tables (1 / 2) two_by_two_data) 0 1 = 4"
    using w1 [OF i(1) i(2), THEN conjunct2, THEN conjunct2] by (simp only: two_by_two_tables; simp?)
  have 3: "id_cost_matrix 2 2 (seq_tables (1 / 2) two_by_two_data) 1 3 = 2"
    using w2 [OF i(2), unfolded n] by (simp only: two_by_two_tables)
  have 4: "id_cost_matrix 2 2 (seq_tables (1 / 2) two_by_two_data) 3 1 = 2"
    using w3 [OF i(2), unfolded n] by (simp only: two_by_two_tables)
  note 5 = w4 [OF i(2) i(2), unfolded n]
  note 6 = w5 [OF i(2) i(1) i(3), unfolded n]
  note 7 = w6 [OF i(2) i(1) i(3), unfolded n]
  note 8 = w7 [THEN conjunct1, rule_format, OF i(1) i(2)]
  from accumulate_shapes_ok [OF v] two_by_two_valid 1 2 3 4 5 6 7 8 show ?thesis
    by (intro conjI)
qed

text \<open>
  Against claim C1 as stated: on the long sequence the cell of tracker \<open>0\<close>'s sink row and tracker \<open>1\<close>'s column holds
  the literal \<open>1e10\<close>, while the real cell \<open>(0, 0)\<close> costs \<open>2e10\<close>: the literal does not
  dominate.
\<close>

theorem penalty_not_dominating:
  "valid_data heavy_data
   \<and> 0 < num_gt_dets heavy_data \<and> 0 < num_tracker_dets heavy_data
   \<and> accumulate (1 / 2) heavy_data = Inr (seq_tables (1 / 2) heavy_data)
   \<and> id_cost_matrix (num_gt_ids heavy_data) (num_tracker_ids heavy_data)
        (seq_tables (1 / 2) heavy_data) (1 + 0) 1 = 10 ^ 10
   \<and> id_cost_matrix (num_gt_ids heavy_data) (num_tracker_ids heavy_data)
        (seq_tables (1 / 2) heavy_data) 0 0 = 2 * 10 ^ 10"
proof -
  have v: "shapes_ok heavy_data"
    using heavy_valid by (simp add: valid_data_def)
  have n: "num_gt_ids heavy_data = 1" "num_tracker_ids heavy_data = 2"
    "num_gt_dets heavy_data = many" "num_tracker_dets heavy_data = many * 2"
    by (simp_all add: heavy_data_def const_ids_data_def)
  have m: "0 < many" "real many = 10 ^ 10" by (simp_all add: many_def)
  have c: "id_cost_matrix 1 2 (seq_tables (1 / 2) heavy_data) (1 + 0) 1 = 10 ^ 10"
    "id_cost_matrix 1 2 (seq_tables (1 / 2) heavy_data) 0 0 = 2 * 10 ^ 10"
    unfolding heavy_tables id_cost_matrix_def id_fn_mat_eq id_fp_mat_eq penalty_def
    by (simp_all add: m)
  from heavy_valid accumulate_shapes_ok [OF v] c m(1) show ?thesis
    unfolding n by simp
qed

section \<open>Optimal assignments of the detection-level matrix\<close>

lemma assignment_set:
  assumes "p \<in> set (assignments n)"
  shows "set p = {0..<n}"
proof -
  from assms have l: "length p = n" and d: "distinct p" and s: "set p \<subseteq> {0..<n}"
    by (simp_all add: assignments_iff)
  from d l have "card (set p) = card {0..<n}" by (simp add: distinct_card)
  with s show ?thesis by (intro card_subset_eq) simp_all
qed

lemma total_cost_sum: "total_cost n C p = (\<Sum>i\<in>{0..<n}. C i (p ! i))"
  by (simp add: total_cost_def sum_list_distinct_conv_sum_set)

lemma swap_assignment:
  assumes "p \<in> set (assignments n)" "i < n" "j < n"
  shows "p[i := p ! j, j := p ! i] \<in> set (assignments n)"
  using assms by (simp add: assignments_iff distinct_swap)

lemma sum_two_out:
  fixes f :: "nat \<Rightarrow> real"
  assumes "finite S" "i \<in> S" "j \<in> S" "i \<noteq> j"
  shows "sum f S = f i + f j + sum f (S - {i, j})"
proof -
  have "sum f S = f i + sum f (S - {i})"
    using assms(1,2) by (rule sum.remove)
  also have "sum f (S - {i}) = f j + sum f (S - {i} - {j})"
    using assms by (intro sum.remove) auto
  also have "S - {i} - {j} = S - {i, j}" by auto
  finally show ?thesis by simp
qed

lemma total_cost_swap:
  assumes "i < n" "j < n" "i \<noteq> j" "length p = n"
  shows "total_cost n C (p[i := p ! j, j := p ! i])
      = total_cost n C p - C i (p ! i) - C j (p ! j) + C i (p ! j) + C j (p ! i)"
proof -
  let ?q = "p[i := p ! j, j := p ! i]"
  let ?R = "{0..<n} - {i, j}"
  have mem: "finite {0..<n}" "i \<in> {0..<n}" "j \<in> {0..<n}"
    using assms(1,2) by auto
  have rest: "(\<Sum>k\<in>?R. C k (?q ! k)) = (\<Sum>k\<in>?R. C k (p ! k))"
    by (rule sum.cong) (auto simp: nth_list_update)
  have q: "?q ! i = p ! j" "?q ! j = p ! i"
    using assms by (simp_all add: nth_list_update)
  have "(\<Sum>k\<in>{0..<n}. C k (?q ! k)) = C i (?q ! i) + C j (?q ! j) + (\<Sum>k\<in>?R. C k (?q ! k))"
    using mem assms(3) by (rule sum_two_out)
  moreover have "(\<Sum>k\<in>{0..<n}. C k (p ! k)) = C i (p ! i) + C j (p ! j) + (\<Sum>k\<in>?R. C k (p ! k))"
    using mem assms(3) by (rule sum_two_out)
  ultimately show ?thesis
    unfolding total_cost_sum rest q by simp
qed

lemma zip_upt_nth:
  assumes "length cols = n"
  shows "zip [0..<n] cols = map (\<lambda>i. (i, cols ! i)) [0..<n]"
  using assms by (intro nth_equalityI) simp_all

lemma id_cell_values:
  assumes "g < G"
  shows "c < T \<Longrightarrow> id_cost_matrix G T (pm, gc, tc) g c = gc g + tc c - 2 * pm g c"
    and "id_cost_matrix G T (pm, gc, tc) g (T + g) = gc g"
    and "g' < G \<Longrightarrow> g' \<noteq> g \<Longrightarrow> id_cost_matrix G T (pm, gc, tc) g (T + g') = penalty"
    and "G \<le> r \<Longrightarrow> id_cost_matrix G T (pm, gc, tc) r (T + g') = 0"
  using assms by (simp_all add: id_cost_matrix_def id_fn_mat_eq id_fp_mat_eq)

lemma optimal_pair:
  assumes cols: "cols \<in> set (assignments (G + T))"
    and opt: "\<forall>p\<in>set (assignments (G + T)).
        total_cost (G + T) (id_cost_matrix G T (pm, gc, tc)) cols
          \<le> total_cost (G + T) (id_cost_matrix G T (pm, gc, tc)) p"
    and g: "g < G" and sink: "T \<le> cols ! g" and other: "cols ! g \<noteq> T + g"
    and cheap: "gc g < penalty"
  shows "cols ! g - T < G \<and> cols ! g - T \<noteq> g \<and> cols ! (cols ! g - T) = T + g
    \<and> 2 * penalty \<le> gc g + gc (cols ! g - T)"
proof -
  let ?n = "G + T"
  let ?C = "id_cost_matrix G T (pm, gc, tc)"
  define g' where "g' = cols ! g - T"
  from cols have len: "length cols = ?n" and dist: "distinct cols"
    by (simp_all add: assignments_iff)
  have set: "set cols = {0..<?n}" using cols by (rule assignment_set)
  from g len have "cols ! g \<in> set cols" by simp
  with set have cg: "cols ! g < ?n" by simp
  with sink have g': "g' < G" "cols ! g = T + g'" by (simp_all add: g'_def)
  with other have ne: "g' \<noteq> g" by auto
  from g have "T + g \<in> set cols" unfolding set by simp
  then obtain r where r: "r < ?n" "cols ! r = T + g"
    unfolding in_set_conv_nth len by blast
  with other have rg: "r \<noteq> g" by auto
  let ?q = "cols[g := cols ! r, r := cols ! g]"
  from g have gn: "g < ?n" by simp
  have "?q \<in> set (assignments ?n)"
    using cols gn r(1) by (rule swap_assignment)
  with opt have "total_cost ?n ?C cols \<le> total_cost ?n ?C ?q" by blast
  also have "total_cost ?n ?C ?q
      = total_cost ?n ?C cols - ?C g (cols ! g) - ?C r (cols ! r) + ?C g (cols ! r) + ?C r (cols ! g)"
    using gn r(1) rg [symmetric] len by (rule total_cost_swap)
  finally have ineq: "?C g (T + g') + ?C r (T + g) \<le> ?C g (T + g) + ?C r (T + g')"
    unfolding r(2) g'(2) by simp
  have c1: "?C g (T + g') = penalty" using id_cell_values(3) [OF g g'(1) ne] .
  have c2: "?C g (T + g) = gc g" using id_cell_values(2) [OF g] .
  have rg': "r = g'"
  proof (rule ccontr)
    assume n: "r \<noteq> g'"
    show False
    proof (cases "r < G")
      case True
      have "?C r (T + g) = penalty" using id_cell_values(3) [OF True g rg [symmetric]] .
      moreover have "?C r (T + g') = penalty"
        using id_cell_values(3) [OF True g'(1)] n by simp
      ultimately show False using ineq c1 c2 cheap by simp
    next
      case False
      then have "G \<le> r" by simp
      then have "?C r (T + g) = 0" "?C r (T + g') = 0"
        using id_cell_values(4) [OF g] by simp_all
      then show False using ineq c1 c2 cheap by simp
    qed
  qed
  have c3: "?C g' (T + g) = penalty" using id_cell_values(3) [OF g'(1) g] ne by simp
  have c4: "?C g' (T + g') = gc g'" using id_cell_values(2) [OF g'(1)] .
  from ineq have "2 * penalty \<le> gc g + gc g'"
    unfolding rg' c1 c2 c3 c4 by simp
  with g' ne r(2) show ?thesis
    unfolding rg' g'_def [symmetric] by simp
qed

lemma optimal_fn_sum_le:
  assumes acc: "accumulate thr data = Inr (pm, gc, tc)"
    and cols: "cols \<in> set (assignments (G + T))"
    and opt: "\<forall>p\<in>set (assignments (G + T)).
        total_cost (G + T) (id_cost_matrix G T (pm, gc, tc)) cols
          \<le> total_cost (G + T) (id_cost_matrix G T (pm, gc, tc)) p"
  shows "(\<Sum>g\<in>{0..<G}. id_fn_mat G T (pm, gc, tc) g (cols ! g)) \<le> (\<Sum>g\<in>{0..<G}. gc g)"
proof -
  define e where "e g = id_fn_mat G T (pm, gc, tc) g (cols ! g) - gc g" for g
  define bad where "bad g \<longleftrightarrow> T \<le> cols ! g \<and> cols ! g \<noteq> T + g" for g
  define B where "B = {g \<in> {0..<G}. bad g \<and> gc g < penalty}"
  define \<pi> where "\<pi> g = cols ! g - T" for g
  from cols have len: "length cols = G + T" by (simp add: assignments_iff)
  have set: "set cols = {0..<G + T}" using cols by (rule assignment_set)
  have in_range: "cols ! g < G + T" if "g < G" for g
  proof -
    from that len have "cols ! g \<in> set cols" by simp
    then show ?thesis unfolding set by simp
  qed
  note b = seq_counts_bounds(1-3) [OF acc]
  have e_good: "e g \<le> 0" if "g < G" "\<not> bad g" for g
  proof (cases "cols ! g < T")
    case True
    with that(1) b(1) [of g "cols ! g"] show ?thesis
      by (simp add: e_def id_fn_mat_eq)
  next
    case False
    with that(2) have "cols ! g = T + g" by (simp add: bad_def)
    with that(1) show ?thesis by (simp add: e_def id_fn_mat_eq)
  qed
  have e_bad: "e g = penalty - gc g" if "g < G" "bad g" for g
    using that in_range [OF that(1)] by (simp add: e_def id_fn_mat_eq bad_def)
  have pair: "\<pi> g < G \<and> \<pi> g \<noteq> g \<and> cols ! (\<pi> g) = T + g \<and> 2 * penalty \<le> gc g + gc (\<pi> g)"
    if "g \<in> B" for g
    unfolding \<pi>_def using that
    by (intro optimal_pair [OF cols opt]) (simp_all add: B_def bad_def)
  have pair_bad: "bad (\<pi> g)" if "g \<in> B" for g
    using pair [OF that] by (simp add: bad_def)
  have pair_notin: "\<pi> g \<notin> B" if "g \<in> B" for g
    using pair [OF that] that by (simp add: B_def)
  have pair_inv: "\<pi> (\<pi> g) = g" if "g \<in> B" for g
    using pair [OF that] by (simp add: \<pi>_def)
  have inj: "inj_on \<pi> B"
    by (rule inj_on_inverseI [where g = \<pi>]) (rule pair_inv)
  have disj: "B \<inter> \<pi> ` B = {}"
    using pair_notin by auto
  have sub: "B \<union> \<pi> ` B \<subseteq> {0..<G}"
    using pair by (auto simp: B_def)
  have fin: "finite B" by (simp add: B_def)
  have pairs_le: "(\<Sum>g\<in>B. e g + e (\<pi> g)) \<le> 0"
  proof (rule sum_nonpos)
    fix g assume gB: "g \<in> B"
    then have "g < G" "bad g" by (simp_all add: B_def)
    then have 1: "e g = penalty - gc g" by (rule e_bad)
    from pair [OF gB] pair_bad [OF gB] have 2: "e (\<pi> g) = penalty - gc (\<pi> g)"
      by (intro e_bad) simp_all
    from pair [OF gB] show "e g + e (\<pi> g) \<le> 0"
      unfolding 1 2 by simp
  qed
  have rest_le: "(\<Sum>g\<in>{0..<G} - (B \<union> \<pi> ` B). e g) \<le> 0"
  proof (rule sum_nonpos)
    fix g assume a: "g \<in> {0..<G} - (B \<union> \<pi> ` B)"
    then have g: "g < G" "g \<notin> B" by auto
    show "e g \<le> 0"
    proof (cases "bad g")
      case True
      with g have "penalty \<le> gc g" by (simp add: B_def)
      with e_bad [OF g(1) True] show ?thesis by simp
    next
      case False
      with g(1) show ?thesis by (rule e_good)
    qed
  qed
  have "(\<Sum>g\<in>{0..<G}. e g) = (\<Sum>g\<in>{0..<G} - (B \<union> \<pi> ` B). e g) + (\<Sum>g\<in>B \<union> \<pi> ` B. e g)"
    using sub by (intro sum.subset_diff) simp_all
  also have "(\<Sum>g\<in>B \<union> \<pi> ` B. e g) = (\<Sum>g\<in>B. e g) + (\<Sum>g\<in>\<pi> ` B. e g)"
    using fin disj by (intro sum.union_disjoint) simp_all
  also have "(\<Sum>g\<in>\<pi> ` B. e g) = (\<Sum>g\<in>B. e (\<pi> g))"
    using inj by (simp add: sum.reindex)
  also have "(\<Sum>g\<in>B. e g) + (\<Sum>g\<in>B. e (\<pi> g)) = (\<Sum>g\<in>B. e g + e (\<pi> g))"
    by (simp add: sum.distrib)
  finally have "(\<Sum>g\<in>{0..<G}. e g) \<le> 0"
    using pairs_le rest_le by simp
  moreover have "(\<Sum>g\<in>{0..<G}. e g)
      = (\<Sum>g\<in>{0..<G}. id_fn_mat G T (pm, gc, tc) g (cols ! g)) - (\<Sum>g\<in>{0..<G}. gc g)"
    by (simp add: e_def sum_subtractf)
  ultimately show ?thesis by simp
qed

lemma id_fn_sum_rows:
  assumes "length cols = G + T"
  shows "(\<Sum>(r, c)\<leftarrow>zip [0..<G + T] cols. id_fn_mat G T (pm, gc, tc) r c)
      = (\<Sum>g\<in>{0..<G}. id_fn_mat G T (pm, gc, tc) g (cols ! g))"
proof -
  have "(\<Sum>(r, c)\<leftarrow>zip [0..<G + T] cols. id_fn_mat G T (pm, gc, tc) r c)
      = (\<Sum>i\<leftarrow>[0..<G + T]. id_fn_mat G T (pm, gc, tc) i (cols ! i))"
    by (simp add: zip_upt_nth [OF assms] comp_def)
  also have "\<dots> = (\<Sum>i\<in>{0..<G + T}. id_fn_mat G T (pm, gc, tc) i (cols ! i))"
    by (simp add: sum_list_distinct_conv_sum_set)
  also have "\<dots> = (\<Sum>i\<in>{0..<G}. id_fn_mat G T (pm, gc, tc) i (cols ! i))"
    by (rule sum.mono_neutral_right) (auto simp: id_fn_mat_eq)
  finally show ?thesis .
qed

section \<open>The output contract\<close>

lemma ratio_range:
  fixes x d :: real
  assumes "0 \<le> x" "x \<le> d"
  shows "0 \<le> x / max 1 d \<and> x / max 1 d \<le> 1"
proof -
  have "0 < max 1 d" by simp
  moreover have "x \<le> max 1 d" using assms(2) by simp
  ultimately show ?thesis using assms(1) by simp
qed

lemma spec_derive_ok:
  assumes "0 \<le> tp" "0 \<le> fn" "0 \<le> fp"
  shows "output_ok (spec_derive tp fn fp)"
proof -
  have r: "0 \<le> spec_IDR tp fn \<and> spec_IDR tp fn \<le> 1"
    unfolding spec_IDR_def using assms by (auto intro!: ratio_range)
  have p: "0 \<le> spec_IDP tp fp \<and> spec_IDP tp fp \<le> 1"
    unfolding spec_IDP_def using assms by (auto intro!: ratio_range)
  have f: "0 \<le> spec_IDF1 tp fn fp \<and> spec_IDF1 tp fn fp \<le> 1"
    unfolding spec_IDF1_def using assms by (auto intro!: ratio_range)
  from r p f assms show ?thesis
    by (simp add: output_ok_def unit_float_def spec_derive_def)
qed

lemma astype_int_nonneg: "0 \<le> x \<Longrightarrow> 0 \<le> astype_int x"
  by (simp add: astype_int_def)

lemma sum_list_pairs_nonneg:
  fixes f :: "nat \<Rightarrow> nat \<Rightarrow> real"
  assumes "\<And>r c. 0 \<le> f r c"
  shows "0 \<le> (\<Sum>(r, c)\<leftarrow>pairs. f r c)"
  by (rule sum_list_nonneg) (auto simp: assms)

lemma eval_sequence_ok:
  assumes acc: "accumulate thr data = Inr tabs"
    and G: "G = num_gt_ids data" and T: "T = num_tracker_ids data"
    and ok: "lsa_ok (G + T) (id_cost_matrix G T tabs) (lsa (G + T) (id_cost_matrix G T tabs))"
  shows "\<exists>res. eval_sequence lsa thr data = Inr res \<and> output_ok res"
proof (cases "num_tracker_dets data \<noteq> 0 \<and> num_gt_dets data \<noteq> 0")
  case False
  then consider "num_tracker_dets data = 0" | "num_tracker_dets data \<noteq> 0" "num_gt_dets data = 0"
    by blast
  then show ?thesis
  proof cases
    case 1
    from eval_sequence_shortcuts(1) [OF 1, of lsa thr] show ?thesis
      by (simp add: spec_derive_ok)
  next
    case 2
    from eval_sequence_shortcuts(2) [OF 2, of lsa thr] show ?thesis
      by (simp add: spec_derive_ok)
  qed
next
  case True
  obtain pm gc tc where tabs: "tabs = (pm, gc, tc)" by (cases tabs) auto
  obtain rows cols where rc: "lsa (G + T) (id_cost_matrix G T tabs) = (rows, cols)"
    by (cases "lsa (G + T) (id_cost_matrix G T tabs)") auto
  from lsa_ok_shape [OF ok] have sh: "rows = [0..<G + T]" "length cols = G + T"
    "set cols \<subseteq> {0..<G + T}"
    by (simp_all add: rc)
  have len: "length rows = length cols" "\<forall>r\<in>set rows. r < G + T" "\<forall>c\<in>set cols. c < G + T"
    using sh by auto
  from ok [unfolded lsa_ok_def rc] have cols: "cols \<in> set (assignments (G + T))"
    and opt: "\<forall>p\<in>set (assignments (G + T)).
        total_cost (G + T) (id_cost_matrix G T (pm, gc, tc)) cols
          \<le> total_cost (G + T) (id_cost_matrix G T (pm, gc, tc)) p"
    unfolding lsa_ok_def rc tabs by simp_all
  define fn_sum where "fn_sum = (\<Sum>(r, c)\<leftarrow>zip rows cols. id_fn_mat G T tabs r c)"
  define fp_sum where "fp_sum = (\<Sum>(r, c)\<leftarrow>zip rows cols. id_fp_mat G T tabs r c)"
  from True have t: "num_tracker_dets data \<noteq> 0" "num_gt_dets data \<noteq> 0" by blast+
  note m = eval_sequence_main [where lsa = lsa, OF t acc G T rc len fn_sum_def fp_sum_def]
  have fnz: "real_of_int (astype_int fn_sum) = fn_sum"
    unfolding fn_sum_def using id_sums_Ints(1) [OF acc] by (simp add: astype_int_Ints)
  have fn0: "0 \<le> fn_sum" unfolding fn_sum_def
    by (rule sum_list_pairs_nonneg) (rule id_mats_nonneg(1) [OF acc])
  have fp0: "0 \<le> fp_sum" unfolding fp_sum_def
    by (rule sum_list_pairs_nonneg) (rule id_mats_nonneg(2) [OF acc])
  have "fn_sum = (\<Sum>g\<in>{0..<G}. id_fn_mat G T (pm, gc, tc) g (cols ! g))"
    unfolding fn_sum_def sh(1) tabs using sh(2) by (rule id_fn_sum_rows)
  also have "\<dots> \<le> (\<Sum>g\<in>{0..<G}. gc g)"
    using acc [unfolded tabs] cols opt by (rule optimal_fn_sum_le)
  also have "\<dots> = sum_list (map (fst (snd tabs)) [0..<G])"
    by (simp add: tabs sum_list_distinct_conv_sum_set)
  finally have "0 \<le> sum_list (map (fst (snd tabs)) [0..<G]) - real_of_int (astype_int fn_sum)"
    unfolding fnz by simp
  then have "0 \<le> astype_int (sum_list (map (fst (snd tabs)) [0..<G]) - real_of_int (astype_int fn_sum))"
    by (rule astype_int_nonneg)
  with fn0 fp0 show ?thesis
    unfolding m by (simp add: spec_derive_ok astype_int_nonneg)
qed

lemma length_filter_less_upt: "length (filter (\<lambda>i. i < G) [0..<n]) = min G n"
  by (induction n) (auto simp: min_def)

lemma length_filter_fst_upt:
  assumes "length cols = n"
  shows "length (filter (\<lambda>(r, c). r < G) (zip [0..<n] cols)) = min G n"
proof -
  have "length (filter (\<lambda>(r, c). r < G) (zip [0..<n] cols))
      = length (filter (\<lambda>i. i < G) [0..<n])"
    by (simp add: zip_upt_nth [OF assms] filter_map comp_def)
  then show ?thesis by (simp only: length_filter_less_upt)
qed

lemma filter_two_le:
  assumes "\<And>x. P x \<Longrightarrow> R x" "\<And>x. Q x \<Longrightarrow> R x" "\<And>x. P x \<Longrightarrow> Q x \<Longrightarrow> False"
  shows "length (filter P xs) + length (filter Q xs) \<le> length (filter R xs)"
  by (induction xs) (auto dest: assms)

lemma track_fn_le:
  assumes "length cols = G + T"
  shows "gt_to_sink G T (zip [0..<G + T] cols) + re_assigned G T tabs iou (zip [0..<G + T] cols) \<le> G"
proof -
  let ?ps = "zip [0..<G + T] cols"
  have "gt_to_sink G T ?ps + re_assigned G T tabs iou ?ps
      = length (filter (\<lambda>(r, c). r < G \<and> T \<le> c) ?ps)
        + length (filter (\<lambda>(r, c). (r < G \<and> c < T) \<and> ratio_le (fst tabs r c) (snd (snd tabs) c) iou) ?ps)"
    by (simp add: gt_to_sink_def re_assigned_def case_prod_unfold)
  also have "\<dots> \<le> length (filter (\<lambda>(r, c). r < G) ?ps)"
    by (rule filter_two_le) auto
  also have "\<dots> = min G (G + T)" using assms by (rule length_filter_fst_upt)
  finally show ?thesis by simp
qed

lemma track_eval_sequence_ok:
  assumes acc: "accumulate thr data = Inr tabs" and ap: "ids_appear data"
    and G: "G = num_gt_ids data" and T: "T = num_tracker_ids data"
    and ok: "lsa_ok (G + T) (\<lambda>i j. the (track_cost_matrix G T tabs i j))
               (lsa (G + T) (\<lambda>i j. the (track_cost_matrix G T tabs i j)))"
  shows "\<exists>res. track_eval_sequence lsa thr iou data = Inr res \<and> output_ok res \<and> IDFN res \<le> int G"
proof (cases "num_tracker_dets data \<noteq> 0 \<and> num_gt_dets data \<noteq> 0")
  case False
  then consider "num_tracker_dets data = 0" | "num_tracker_dets data \<noteq> 0" "num_gt_dets data = 0"
    by blast
  then show ?thesis
  proof cases
    case 1
    then show ?thesis
      by (simp add: track_eval_sequence_def init_res_def output_ok_def unit_float_def G)
  next
    case 2
    then show ?thesis
      by (simp add: track_eval_sequence_def init_res_def output_ok_def unit_float_def)
  qed
next
  case True
  obtain rows cols where rc: "lsa (G + T) (\<lambda>i j. the (track_cost_matrix G T tabs i j)) = (rows, cols)"
    by (cases "lsa (G + T) (\<lambda>i j. the (track_cost_matrix G T tabs i j))") auto
  from lsa_ok_shape [OF ok] have sh: "rows = [0..<G + T]" "length cols = G + T"
    by (simp_all add: rc)
  then have len: "length rows = length cols" by simp
  from True have t: "num_tracker_dets data \<noteq> 0" "num_gt_dets data \<noteq> 0" by blast+
  note m = track_eval_sequence_main [where lsa = lsa and rows = rows and cols = cols and iou = iou,
      OF t acc ap G T rc len]
  from track_fn_le [OF sh(2), of tabs iou]
  have "0 \<le> int G - (int (gt_to_sink G T (zip rows cols)) + int (re_assigned G T tabs iou (zip rows cols)))"
    unfolding sh(1) by linarith
  then show ?thesis
    unfolding m by (simp add: spec_derive_ok) (simp add: spec_derive_def)
qed

text \<open>
  Claim C9. For a well-formed sequence and a solver that meets its contract, both
  \<^verbatim>\<open>eval_sequence\<close> methods return a result (the record of the six fields \<open>IDTP\<close>, \<open>IDFN\<close>,
  \<open>IDFP\<close>, \<open>IDF1\<close>, \<open>IDR\<close>, \<open>IDP\<close>) whose three counts are non-negative and whose three
  ratios are finite values in \<open>[0, 1]\<close>. In the track-level method \<open>IDFN \<le> num_gt_ids\<close>.
\<close>

theorem eval_sequence_output_contract:
  assumes "valid_data data" and "accumulate thr data = Inr tabs"
    and "G = num_gt_ids data" and "T = num_tracker_ids data"
    and "lsa_ok (G + T) (id_cost_matrix G T tabs) (lsa (G + T) (id_cost_matrix G T tabs))"
    and "lsa_ok (G + T) (\<lambda>i j. the (track_cost_matrix G T tabs i j))
           (lsa (G + T) (\<lambda>i j. the (track_cost_matrix G T tabs i j)))"
  shows "(\<exists>res. eval_sequence lsa thr data = Inr res \<and> output_ok res)
    \<and> (\<exists>res. track_eval_sequence lsa thr iou data = Inr res \<and> output_ok res \<and> IDFN res \<le> int G)"
proof -
  from assms(1) have ap: "ids_appear data" by (simp add: valid_data_def)
  from eval_sequence_ok [where lsa = lsa, OF assms(2-5)]
    track_eval_sequence_ok [where lsa = lsa and iou = iou, OF assms(2) ap assms(3,4,6)]
  show ?thesis by blast
qed

lemma two_by_two_track_solver:
  "lsa_ok (2 + 2) (\<lambda>i j. the (track_cost_matrix 2 2 (seq_tables (1 / 2) two_by_two_data) i j))
     (diagonal_solver (2 + 2) (\<lambda>i j. the (track_cost_matrix 2 2 (seq_tables (1 / 2) two_by_two_data) i j)))"
  by code_simp

theorem eval_sequence_output_contract_witness:
  "(\<exists>res. eval_sequence diagonal_solver (1 / 2) two_by_two_data = Inr res \<and> output_ok res)
    \<and> (\<exists>res. track_eval_sequence diagonal_solver (1 / 2) (1 / 5) two_by_two_data = Inr res
          \<and> output_ok res \<and> IDFN res \<le> 2)"
proof -
  have v: "shapes_ok two_by_two_data"
    using two_by_two_valid by (simp add: valid_data_def)
  have h: "2 = num_gt_ids two_by_two_data" "2 = num_tracker_ids two_by_two_data"
    by (simp_all add: two_by_two_data_def)
  from eval_sequence_output_contract [where lsa = diagonal_solver and iou = "1 / 5",
      OF two_by_two_valid accumulate_shapes_ok [OF v] h two_by_two_solver two_by_two_track_solver]
  show ?thesis by simp
qed

section \<open>Monotonicity in the threshold\<close>

lemma filter_mono_length:
  assumes "\<And>x. x \<in> set xs \<Longrightarrow> P x \<Longrightarrow> Q x"
  shows "length (filter P xs) \<le> length (filter Q xs)"
  using assms by (induction xs) auto

lemma nonzero_ge_mono:
  assumes "t1 \<le> t2"
  shows "set (nonzero_ge sim t2) \<subseteq> set (nonzero_ge sim t1)"
  using assms by (auto simp: nonzero_ge_def)

lemma matched_ids_mono:
  assumes "t1 \<le> t2"
  shows "set (matched_ids t2 gs ks sim) \<subseteq> set (matched_ids t1 gs ks sim)"
  using nonzero_ge_mono [OF assms, of sim] by (auto simp: matched_ids_def)

lemma match_count_mono:
  assumes "t1 \<le> t2"
  shows "match_count t2 sims fs g k \<le> match_count t1 sims fs g k"
  unfolding match_count_def using matched_ids_mono [OF assms]
  by (intro filter_mono_length) auto

lemma tables_mono:
  assumes "t1 \<le> t2" and "accumulate t1 data = Inr (pm1, gc1, tc1)"
    and "accumulate t2 data = Inr (pm2, gc2, tc2)"
  shows "pm2 g k \<le> pm1 g k" "gc2 = gc1" "tc2 = tc1"
proof -
  from accumulate_Inr [OF assms(2)] accumulate_Inr [OF assms(3)]
  have t: "(pm1, gc1, tc1) = seq_tables t1 data" "(pm2, gc2, tc2) = seq_tables t2 data"
    by blast+
  then show "gc2 = gc1" "tc2 = tc1" by (simp_all add: seq_tables_def)
  from t have "pm1 g k = real (match_count t1 (similarity_scores data) (frames data) g k)"
    "pm2 g k = real (match_count t2 (similarity_scores data) (frames data) g k)"
    by (simp_all add: seq_tables_def)
  then show "pm2 g k \<le> pm1 g k"
    using match_count_mono [OF assms(1)] by simp
qed

lemma id_cost_mono:
  assumes "\<And>g k. pm2 g k \<le> pm1 g k"
  shows "id_cost_matrix G T (pm1, gc, tc) i j \<le> id_cost_matrix G T (pm2, gc, tc) i j"
  using assms [of i j] by (simp add: id_cost_matrix_def id_fn_mat_eq id_fp_mat_eq)

lemma total_cost_mono:
  assumes "\<And>i j. C1 i j \<le> C2 i j"
  shows "total_cost n C1 p \<le> total_cost n C2 p"
  unfolding total_cost_def by (rule sum_list_mono) (rule assms)

lemma unmatched_assignment: "unmatched G T \<in> set (assignments (G + T))"
proof -
  have "inj_on (\<lambda>i. if i < G then T + i else i - G) (set [0..<G + T])"
  proof (rule inj_onI)
    fix x y assume "x \<in> set [0..<G + T]" "y \<in> set [0..<G + T]"
      and e: "(if x < G then T + x else x - G) = (if y < G then T + y else y - G)"
    then have "x < G + T" "y < G + T" by simp_all
    with e show "x = y" by (auto split: if_splits)
  qed
  then have "distinct (unmatched G T)"
    unfolding unmatched_def by (simp add: distinct_map)
  moreover have "set (unmatched G T) \<subseteq> {0..<G + T}"
    by (auto simp: unmatched_def)
  ultimately show ?thesis
    by (simp add: assignments_iff unmatched_def)
qed

lemma unmatched_cost:
  "total_cost (G + T) (id_cost_matrix G T (pm, gc, tc)) (unmatched G T)
     = (\<Sum>g\<in>{0..<G}. gc g) + (\<Sum>t\<in>{0..<T}. tc t)"
proof -
  let ?C = "id_cost_matrix G T (pm, gc, tc)"
  have low: "?C i (unmatched G T ! i) = gc i" if "i \<in> {0..<G}" for i
    using that by (simp add: unmatched_def id_cost_matrix_def id_fn_mat_eq id_fp_mat_eq)
  have high: "?C (t + G) (unmatched G T ! (t + G)) = tc t" if "t \<in> {0..<T}" for t
    using that by (simp add: unmatched_def id_cost_matrix_def id_fn_mat_eq id_fp_mat_eq)
  have "{0..<G + T} = {0..<G} \<union> {G..<G + T}" by auto
  then have "total_cost (G + T) ?C (unmatched G T)
      = (\<Sum>i\<in>{0..<G}. ?C i (unmatched G T ! i)) + (\<Sum>i\<in>{G..<G + T}. ?C i (unmatched G T ! i))"
    unfolding total_cost_sum by (simp only: sum.union_disjoint [OF finite_atLeastLessThan finite_atLeastLessThan ivl_disj_int_two(3)])
  also have "(\<Sum>i\<in>{G..<G + T}. ?C i (unmatched G T ! i))
      = (\<Sum>t\<in>{0..<T}. ?C (t + G) (unmatched G T ! (t + G)))"
    using sum.shift_bounds_nat_ivl [of "\<lambda>i. ?C i (unmatched G T ! i)" 0 G T] by (simp add: add.commute)
  finally show ?thesis
    by (simp only: sum.cong [OF refl low] sum.cong [OF refl high])
qed

lemma pairs_sum_set:
  fixes M :: "nat \<Rightarrow> nat \<Rightarrow> real"
  assumes "length cols = n"
  shows "(\<Sum>(r, c)\<leftarrow>zip [0..<n] cols. M r c) = (\<Sum>i\<in>{0..<n}. M i (cols ! i))"
proof -
  have "(\<Sum>(r, c)\<leftarrow>zip [0..<n] cols. M r c) = (\<Sum>i\<leftarrow>[0..<n]. M i (cols ! i))"
    by (simp add: zip_upt_nth [OF assms] comp_def)
  then show ?thesis
    by (simp add: sum_list_distinct_conv_sum_set)
qed

lemma assignment_reindex:
  fixes h :: "nat \<Rightarrow> real"
  assumes "cols \<in> set (assignments n)"
  shows "(\<Sum>i\<in>{0..<n}. h (cols ! i)) = (\<Sum>c\<in>{0..<n}. h c)"
proof -
  from assms have len: "length cols = n" and dist: "distinct cols"
    by (simp_all add: assignments_iff)
  have "(\<Sum>i\<in>{0..<n}. h (cols ! i)) = (\<Sum>i\<leftarrow>[0..<n]. h (cols ! i))"
    by (simp add: sum_list_distinct_conv_sum_set)
  also have "\<dots> = sum_list (map h (map (nth cols) [0..<length cols]))"
    by (simp add: len comp_def)
  also have "\<dots> = sum_list (map h cols)"
    by (simp only: map_nth)
  also have "\<dots> = sum h (set cols)"
    using dist by (rule sum_list_distinct_conv_sum_set)
  finally show ?thesis
    by (simp only: assignment_set [OF assms])
qed

lemma penalty_cell:
  assumes "i < G + T" "c < G + T"
    and "\<not> (if i < G then c < T \<or> c = T + i else T \<le> c \<or> c + G = i)"
  shows "id_cost_matrix G T (pm, gc, tc) i c = penalty"
  using assms by (auto simp: id_cost_matrix_def id_fn_mat_eq id_fp_mat_eq split: if_splits)

lemma optimal_penalty_free:
  assumes acc: "accumulate thr data = Inr (pm, gc, tc)"
    and cols: "cols \<in> set (assignments (G + T))"
    and opt: "\<forall>p\<in>set (assignments (G + T)).
        total_cost (G + T) (id_cost_matrix G T (pm, gc, tc)) cols
          \<le> total_cost (G + T) (id_cost_matrix G T (pm, gc, tc)) p"
    and small: "(\<Sum>g\<in>{0..<G}. gc g) + (\<Sum>t\<in>{0..<T}. tc t) < penalty"
  shows "penalty_free G T cols"
proof (rule ccontr)
  let ?C = "id_cost_matrix G T (pm, gc, tc)"
  assume "\<not> penalty_free G T cols"
  then obtain i where i: "i < G + T"
    "\<not> (if i < G then cols ! i < T \<or> cols ! i = T + i else T \<le> cols ! i \<or> cols ! i + G = i)"
    unfolding penalty_free_def by auto
  from cols have len: "length cols = G + T" by (simp add: assignments_iff)
  with i(1) have "cols ! i \<in> set cols" by simp
  then have c: "cols ! i < G + T" unfolding assignment_set [OF cols] by simp
  have "?C i (cols ! i) = penalty" using i(1) c i(2) by (rule penalty_cell)
  moreover have "?C i (cols ! i) \<le> (\<Sum>k\<in>{0..<G + T}. ?C k (cols ! k))"
  proof (rule member_le_sum)
    show "i \<in> {0..<G + T}" using i(1) by simp
    show "0 \<le> ?C k (cols ! k)" for k
      using id_mats_nonneg [OF acc, of G T k "cols ! k"] by (simp add: id_cost_matrix_def)
  qed simp
  moreover have "total_cost (G + T) ?C cols \<le> total_cost (G + T) ?C (unmatched G T)"
    using opt unmatched_assignment by blast
  ultimately show False
    using small unfolding total_cost_sum [symmetric] unmatched_cost by simp
qed

lemma penalty_free_split:
  assumes pf: "penalty_free G T cols" and cols: "cols \<in> set (assignments (G + T))"
  shows "(\<Sum>i\<in>{0..<G + T}. id_fn_mat G T (pm, gc, tc) i (cols ! i))
       - (\<Sum>i\<in>{0..<G + T}. id_fp_mat G T (pm, gc, tc) i (cols ! i))
     = (\<Sum>g\<in>{0..<G}. gc g) - (\<Sum>t\<in>{0..<T}. tc t)"
proof -
  let ?row = "\<lambda>i. if i < G then gc i else 0"
  let ?col = "\<lambda>c. if c < T then tc c else 0"
  have cell: "id_fn_mat G T (pm, gc, tc) i (cols ! i) - id_fp_mat G T (pm, gc, tc) i (cols ! i)
      = ?row i - ?col (cols ! i)" if "i \<in> {0..<G + T}" for i
  proof -
    from pf that
    have "if i < G then cols ! i < T \<or> cols ! i = T + i else T \<le> cols ! i \<or> cols ! i + G = i"
      by (simp add: penalty_free_def)
    then show ?thesis
      by (auto simp: id_fn_mat_eq id_fp_mat_eq split: if_splits)
  qed
  have "(\<Sum>i\<in>{0..<G + T}. id_fn_mat G T (pm, gc, tc) i (cols ! i))
       - (\<Sum>i\<in>{0..<G + T}. id_fp_mat G T (pm, gc, tc) i (cols ! i))
     = (\<Sum>i\<in>{0..<G + T}. ?row i - ?col (cols ! i))"
    unfolding sum_subtractf [symmetric] by (rule sum.cong [OF refl cell])
  also have "\<dots> = (\<Sum>i\<in>{0..<G + T}. ?row i) - (\<Sum>i\<in>{0..<G + T}. ?col (cols ! i))"
    by (rule sum_subtractf)
  also have "(\<Sum>i\<in>{0..<G + T}. ?col (cols ! i)) = (\<Sum>c\<in>{0..<G + T}. ?col c)"
    using cols by (rule assignment_reindex)
  also have "(\<Sum>c\<in>{0..<G + T}. ?col c) = (\<Sum>t\<in>{0..<T}. tc t)"
    by (rule sum.mono_neutral_cong_right) auto
  also have "(\<Sum>i\<in>{0..<G + T}. ?row i) = (\<Sum>g\<in>{0..<G}. gc g)"
    by (rule sum.mono_neutral_cong_right) auto
  finally show ?thesis .
qed

lemma optimal_sums_mono:
  assumes acc1: "accumulate t1 data = Inr (pm1, gc, tc)"
    and acc2: "accumulate t2 data = Inr (pm2, gc, tc)"
    and le: "\<And>g k. pm2 g k \<le> pm1 g k"
    and cols1: "cols1 \<in> set (assignments (G + T))"
    and opt1: "\<forall>p\<in>set (assignments (G + T)).
        total_cost (G + T) (id_cost_matrix G T (pm1, gc, tc)) cols1
          \<le> total_cost (G + T) (id_cost_matrix G T (pm1, gc, tc)) p"
    and cols2: "cols2 \<in> set (assignments (G + T))"
    and opt2: "\<forall>p\<in>set (assignments (G + T)).
        total_cost (G + T) (id_cost_matrix G T (pm2, gc, tc)) cols2
          \<le> total_cost (G + T) (id_cost_matrix G T (pm2, gc, tc)) p"
    and small: "(\<Sum>g\<in>{0..<G}. gc g) + (\<Sum>t\<in>{0..<T}. tc t) < penalty"
  shows "(\<Sum>i\<in>{0..<G + T}. id_fn_mat G T (pm1, gc, tc) i (cols1 ! i))
      \<le> (\<Sum>i\<in>{0..<G + T}. id_fn_mat G T (pm2, gc, tc) i (cols2 ! i))"
    and "(\<Sum>i\<in>{0..<G + T}. id_fp_mat G T (pm1, gc, tc) i (cols1 ! i))
      \<le> (\<Sum>i\<in>{0..<G + T}. id_fp_mat G T (pm2, gc, tc) i (cols2 ! i))"
proof -
  let ?n = "G + T"
  define FN1 where "FN1 = (\<Sum>i\<in>{0..<?n}. id_fn_mat G T (pm1, gc, tc) i (cols1 ! i))"
  define FP1 where "FP1 = (\<Sum>i\<in>{0..<?n}. id_fp_mat G T (pm1, gc, tc) i (cols1 ! i))"
  define FN2 where "FN2 = (\<Sum>i\<in>{0..<?n}. id_fn_mat G T (pm2, gc, tc) i (cols2 ! i))"
  define FP2 where "FP2 = (\<Sum>i\<in>{0..<?n}. id_fp_mat G T (pm2, gc, tc) i (cols2 ! i))"
  have pf1: "penalty_free G T cols1" using acc1 cols1 opt1 small by (rule optimal_penalty_free)
  have pf2: "penalty_free G T cols2" using acc2 cols2 opt2 small by (rule optimal_penalty_free)
  have d: "FN1 - FP1 = FN2 - FP2"
    unfolding FN1_def FP1_def FN2_def FP2_def
    by (simp only: penalty_free_split [OF pf1 cols1] penalty_free_split [OF pf2 cols2])
  have tot1: "total_cost ?n (id_cost_matrix G T (pm1, gc, tc)) cols1 = FN1 + FP1"
    unfolding total_cost_sum FN1_def FP1_def id_cost_matrix_def by (simp add: sum.distrib)
  have tot2: "total_cost ?n (id_cost_matrix G T (pm2, gc, tc)) cols2 = FN2 + FP2"
    unfolding total_cost_sum FN2_def FP2_def id_cost_matrix_def by (simp add: sum.distrib)
  have "total_cost ?n (id_cost_matrix G T (pm1, gc, tc)) cols1
      \<le> total_cost ?n (id_cost_matrix G T (pm1, gc, tc)) cols2"
    using opt1 cols2 by blast
  also have "\<dots> \<le> total_cost ?n (id_cost_matrix G T (pm2, gc, tc)) cols2"
    by (rule total_cost_mono) (rule id_cost_mono [OF le])
  finally have "FN1 + FP1 \<le> FN2 + FP2" unfolding tot1 tot2 .
  with d show "FN1 \<le> FN2" "FP1 \<le> FP2" by linarith+
qed

lemma eval_sequence_result:
  assumes v: "valid_data data" and acc: "accumulate thr data = Inr tabs"
    and G: "G = num_gt_ids data" and T: "T = num_tracker_ids data"
    and ok: "lsa_ok (G + T) (id_cost_matrix G T tabs) (lsa (G + T) (id_cost_matrix G T tabs))"
    and t: "num_tracker_dets data \<noteq> 0" "num_gt_dets data \<noteq> 0"
    and cols: "cols = snd (lsa (G + T) (id_cost_matrix G T tabs))"
  shows "\<exists>res. eval_sequence lsa thr data = Inr res
      \<and> real_of_int (IDFN res) = (\<Sum>i\<in>{0..<G + T}. id_fn_mat G T tabs i (cols ! i))
      \<and> real_of_int (IDFP res) = (\<Sum>i\<in>{0..<G + T}. id_fp_mat G T tabs i (cols ! i))
      \<and> IDTP res = int (num_gt_dets data) - IDFN res"
proof -
  obtain rows where rc: "lsa (G + T) (id_cost_matrix G T tabs) = (rows, cols)"
    using cols by (cases "lsa (G + T) (id_cost_matrix G T tabs)") auto
  from lsa_ok_shape [OF ok] have sh: "rows = [0..<G + T]" "length cols = G + T"
    "set cols \<subseteq> {0..<G + T}"
    by (simp_all add: rc)
  have len: "length rows = length cols" "\<forall>r\<in>set rows. r < G + T" "\<forall>c\<in>set cols. c < G + T"
    using sh by auto
  define fn_sum where "fn_sum = (\<Sum>(r, c)\<leftarrow>zip rows cols. id_fn_mat G T tabs r c)"
  define fp_sum where "fp_sum = (\<Sum>(r, c)\<leftarrow>zip rows cols. id_fp_mat G T tabs r c)"
  note m = eval_sequence_main [where lsa = lsa, OF t acc G T rc len fn_sum_def fp_sum_def]
  have fnz: "real_of_int (astype_int fn_sum) = fn_sum" "real_of_int (astype_int fp_sum) = fp_sum"
    unfolding fn_sum_def fp_sum_def using id_sums_Ints [OF acc] by (simp_all add: astype_int_Ints)
  have s: "fn_sum = (\<Sum>i\<in>{0..<G + T}. id_fn_mat G T tabs i (cols ! i))"
    "fp_sum = (\<Sum>i\<in>{0..<G + T}. id_fp_mat G T tabs i (cols ! i))"
    unfolding fn_sum_def fp_sum_def sh(1) using sh(2) by (simp_all only: pairs_sum_set)
  have "sum_list (map (fst (snd tabs)) [0..<G]) - real_of_int (astype_int fn_sum)
      = real_of_int (int (num_gt_dets data) - astype_int fn_sum)"
    unfolding G sum_gt_tables(1) [OF v acc] by simp
  then have tp: "astype_int (sum_list (map (fst (snd tabs)) [0..<G]) - real_of_int (astype_int fn_sum))
      = int (num_gt_dets data) - astype_int fn_sum"
    by (simp only: astype_int_of_int)
  show ?thesis
    unfolding m tp using fnz s by (simp add: spec_derive_def)
qed

text \<open>
  Claim C6, amended. Raising the threshold from \<open>t1\<close> to \<open>t2\<close> cannot raise a match count,
  on any sequence.
  For a well-formed sequence with fewer than \<open>1e10\<close> detections in total and a solver that
  returns minimum-cost assignments, the results of \<^verbatim>\<open>Identity.eval_sequence\<close> satisfy
  \<open>IDTP(t2) \<le> IDTP(t1)\<close>, \<open>IDFN(t1) \<le> IDFN(t2)\<close> and \<open>IDFP(t1) \<le> IDFP(t2)\<close>.
\<close>

theorem threshold_monotone:
  assumes "t1 \<le> t2"
    and "accumulate t1 data = Inr tabs1" and "accumulate t2 data = Inr tabs2"
    and "G = num_gt_ids data" and "T = num_tracker_ids data"
  shows "(\<forall>g k. fst tabs2 g k \<le> fst tabs1 g k)
    \<and> (valid_data data
        \<and> real (num_gt_dets data + num_tracker_dets data) < 10 ^ 10
        \<and> lsa_ok (G + T) (id_cost_matrix G T tabs1) (lsa (G + T) (id_cost_matrix G T tabs1))
        \<and> lsa_ok (G + T) (id_cost_matrix G T tabs2) (lsa (G + T) (id_cost_matrix G T tabs2))
      \<longrightarrow> (\<exists>r1 r2. eval_sequence lsa t1 data = Inr r1 \<and> eval_sequence lsa t2 data = Inr r2
          \<and> IDTP r2 \<le> IDTP r1 \<and> IDFN r1 \<le> IDFN r2 \<and> IDFP r1 \<le> IDFP r2))"
proof -
  obtain pm1 gc1 tc1 where tabs1: "tabs1 = (pm1, gc1, tc1)" by (cases tabs1) auto
  obtain pm2 gc2 tc2 where tabs2: "tabs2 = (pm2, gc2, tc2)" by (cases tabs2) auto
  note mono = tables_mono [OF assms(1) assms(2) [unfolded tabs1] assms(3) [unfolded tabs2]]
  have le: "pm2 g k \<le> pm1 g k" for g k by (rule mono(1))
  have tabs2': "tabs2 = (pm2, gc1, tc1)" by (simp add: tabs2 mono(2,3))
  have part1: "\<forall>g k. fst tabs2 g k \<le> fst tabs1 g k"
    using le by (simp add: tabs1 tabs2)
  have part2: "\<exists>r1 r2. eval_sequence lsa t1 data = Inr r1 \<and> eval_sequence lsa t2 data = Inr r2
          \<and> IDTP r2 \<le> IDTP r1 \<and> IDFN r1 \<le> IDFN r2 \<and> IDFP r1 \<le> IDFP r2"
    if v: "valid_data data"
      and sz: "real (num_gt_dets data + num_tracker_dets data) < 10 ^ 10"
      and ok1: "lsa_ok (G + T) (id_cost_matrix G T tabs1) (lsa (G + T) (id_cost_matrix G T tabs1))"
      and ok2: "lsa_ok (G + T) (id_cost_matrix G T tabs2) (lsa (G + T) (id_cost_matrix G T tabs2))"
  proof (cases "num_tracker_dets data \<noteq> 0 \<and> num_gt_dets data \<noteq> 0")
    case False
    then consider "num_tracker_dets data = 0" | "num_tracker_dets data \<noteq> 0" "num_gt_dets data = 0"
      by blast
    then show ?thesis
    proof cases
      case 1
      show ?thesis
        unfolding eval_sequence_shortcuts(1) [OF 1] by simp
    next
      case 2
      show ?thesis
        unfolding eval_sequence_shortcuts(2) [OF 2] by simp
    qed
  next
    case True
    then have t: "num_tracker_dets data \<noteq> 0" "num_gt_dets data \<noteq> 0" by blast+
    define cols1 where "cols1 = snd (lsa (G + T) (id_cost_matrix G T tabs1))"
    define cols2 where "cols2 = snd (lsa (G + T) (id_cost_matrix G T tabs2))"
    from eval_sequence_result [where lsa = lsa, OF v assms(2,4,5) ok1 t cols1_def]
    obtain r1 where r1: "eval_sequence lsa t1 data = Inr r1"
      "real_of_int (IDFN r1) = (\<Sum>i\<in>{0..<G + T}. id_fn_mat G T tabs1 i (cols1 ! i))"
      "real_of_int (IDFP r1) = (\<Sum>i\<in>{0..<G + T}. id_fp_mat G T tabs1 i (cols1 ! i))"
      "IDTP r1 = int (num_gt_dets data) - IDFN r1"
      by blast
    from eval_sequence_result [where lsa = lsa, OF v assms(3,4,5) ok2 t cols2_def]
    obtain r2 where r2: "eval_sequence lsa t2 data = Inr r2"
      "real_of_int (IDFN r2) = (\<Sum>i\<in>{0..<G + T}. id_fn_mat G T tabs2 i (cols2 ! i))"
      "real_of_int (IDFP r2) = (\<Sum>i\<in>{0..<G + T}. id_fp_mat G T tabs2 i (cols2 ! i))"
      "IDTP r2 = int (num_gt_dets data) - IDFN r2"
      by blast
    from ok1 have c1: "cols1 \<in> set (assignments (G + T))"
      and o1: "\<forall>p\<in>set (assignments (G + T)).
        total_cost (G + T) (id_cost_matrix G T (pm1, gc1, tc1)) cols1
          \<le> total_cost (G + T) (id_cost_matrix G T (pm1, gc1, tc1)) p"
      unfolding lsa_ok_def cols1_def tabs1 by simp_all
    from ok2 have c2: "cols2 \<in> set (assignments (G + T))"
      and o2: "\<forall>p\<in>set (assignments (G + T)).
        total_cost (G + T) (id_cost_matrix G T (pm2, gc1, tc1)) cols2
          \<le> total_cost (G + T) (id_cost_matrix G T (pm2, gc1, tc1)) p"
      unfolding lsa_ok_def cols2_def tabs2' by simp_all
    have "(\<Sum>g\<in>{0..<G}. gc1 g) = real (num_gt_dets data)"
      using sum_gt_tables(1) [OF v assms(2)] unfolding tabs1 assms(4)
      by (simp add: sum_list_distinct_conv_sum_set)
    moreover have "(\<Sum>t\<in>{0..<T}. tc1 t) = real (num_tracker_dets data)"
      using sum_gt_tables(2) [OF v assms(2)] unfolding tabs1 assms(5)
      by (simp add: sum_list_distinct_conv_sum_set)
    ultimately have small: "(\<Sum>g\<in>{0..<G}. gc1 g) + (\<Sum>t\<in>{0..<T}. tc1 t) < penalty"
      using sz by (simp add: penalty_def)
    note s = optimal_sums_mono [OF assms(2) [unfolded tabs1] assms(3) [unfolded tabs2'] le c1 o1 c2 o2 small]
    from s have "real_of_int (IDFN r1) \<le> real_of_int (IDFN r2)" "real_of_int (IDFP r1) \<le> real_of_int (IDFP r2)"
      unfolding r1(2,3) r2(2,3) tabs1 tabs2' by simp_all
    then have "IDFN r1 \<le> IDFN r2" "IDFP r1 \<le> IDFP r2" by simp_all
    with r1(1,4) r2(1,4) show ?thesis by auto
  qed
  from part1 part2 show ?thesis by blast
qed

lemma brute_solver_ok: "lsa_ok n C (brute_solver n C)"
proof -
  have "[0..<n] \<in> set (assignments n)"
    by (simp add: assignments_iff)
  then have ne: "assignments n \<noteq> []" by auto
  have "arg_min_list (total_cost n C) (assignments n) \<in> set (assignments n)"
    using ne by (rule arg_min_list_in)
  moreover have "total_cost n C (arg_min_list (total_cost n C) (assignments n)) \<le> total_cost n C p"
    if "p \<in> set (assignments n)" for p
    using that by (simp add: f_arg_min_list_f [OF ne])
  ultimately show ?thesis
    by (simp add: lsa_ok_def brute_solver_def)
qed

lemma assignments_3:
  "assignments 3 = [[2, 1, 0], [1, 2, 0], [2, 0, 1], [0, 2, 1], [1, 0, 2], [0, 1, 2]]"
  by code_simp

lemma total_cost_3: "total_cost 3 C [a, b, c] = C 0 a + C 1 b + C 2 c"
  by (simp add: total_cost_def upt_rec [of 0] upt_rec [of 1] upt_rec [of 2] numeral_3_eq_3
      numeral_2_eq_2)

lemma split_valid: "valid_data split_data"
proof -
  have "half \<noteq> 0" by (simp add: half_def)
  then show ?thesis
    unfolding split_data_def by (intro const_ids_valid) auto
qed

lemma split_matched:
  "matched_ids (1 / 2) [0, 1] [0] [[0], [6 / 10]] = [(1, 0)]"
  "matched_ids (1 / 2) [0, 1] [0] [[0], [0]] = []"
  "matched_ids (7 / 10) [0, 1] [0] [[0], [6 / 10]] = []"
  "matched_ids (7 / 10) [0, 1] [0] [[0], [0]] = []"
  by code_simp+

lemma split_tables:
  "seq_tables (1 / 2) split_data =
     (\<lambda>g k. real ((if (g, k) \<in> set [(1, 0)] then half else 0) + 0),
      \<lambda>g. real (if g \<in> set [0, 1] then half + half else 0),
      \<lambda>k. real (if k \<in> set [0] then half + half else 0))"
  "seq_tables (7 / 10) split_data =
     (\<lambda>g k. real (0 + 0),
      \<lambda>g. real (if g \<in> set [0, 1] then half + half else 0),
      \<lambda>k. real (if k \<in> set [0] then half + half else 0))"
  unfolding split_data_def const_ids_tables filter_append filter_replicate split_matched
  by (simp_all only: if_distrib [of length] length_replicate list.size length_append
      list.set empty_iff if_False)

lemma split_cells_low:
  "id_cost_matrix 2 1 (seq_tables (1 / 2) split_data) 0 0 = 60000000000"
  "id_cost_matrix 2 1 (seq_tables (1 / 2) split_data) 0 1 = 30000000000"
  "id_cost_matrix 2 1 (seq_tables (1 / 2) split_data) 0 2 = 10000000000"
  "id_cost_matrix 2 1 (seq_tables (1 / 2) split_data) 1 0 = 30000000000"
  "id_cost_matrix 2 1 (seq_tables (1 / 2) split_data) 1 1 = 10000000000"
  "id_cost_matrix 2 1 (seq_tables (1 / 2) split_data) 1 2 = 30000000000"
  "id_cost_matrix 2 1 (seq_tables (1 / 2) split_data) 2 0 = 30000000000"
  "id_cost_matrix 2 1 (seq_tables (1 / 2) split_data) 2 1 = 0"
  "id_cost_matrix 2 1 (seq_tables (1 / 2) split_data) 2 2 = 0"
  unfolding split_tables id_cost_matrix_def id_fn_mat_eq id_fp_mat_eq penalty_def
  by (simp_all add: half_def)

lemma split_cells_high:
  "id_cost_matrix 2 1 (seq_tables (7 / 10) split_data) 0 0 = 60000000000"
  "id_cost_matrix 2 1 (seq_tables (7 / 10) split_data) 0 1 = 30000000000"
  "id_cost_matrix 2 1 (seq_tables (7 / 10) split_data) 0 2 = 10000000000"
  "id_cost_matrix 2 1 (seq_tables (7 / 10) split_data) 1 0 = 60000000000"
  "id_cost_matrix 2 1 (seq_tables (7 / 10) split_data) 1 1 = 10000000000"
  "id_cost_matrix 2 1 (seq_tables (7 / 10) split_data) 1 2 = 30000000000"
  "id_cost_matrix 2 1 (seq_tables (7 / 10) split_data) 2 0 = 30000000000"
  "id_cost_matrix 2 1 (seq_tables (7 / 10) split_data) 2 1 = 0"
  "id_cost_matrix 2 1 (seq_tables (7 / 10) split_data) 2 2 = 0"
  unfolding split_tables id_cost_matrix_def id_fn_mat_eq id_fp_mat_eq penalty_def
  by (simp_all add: half_def)

lemma split_optimum_low:
  assumes "lsa_ok 3 (id_cost_matrix 2 1 (seq_tables (1 / 2) split_data)) rc"
  shows "rc = ([0..<3], [2, 0, 1])"
proof -
  let ?C = "id_cost_matrix 2 1 (seq_tables (1 / 2) split_data)"
  from assms have r: "fst rc = [0..<3]" and m: "snd rc \<in> set (assignments 3)"
    and o: "total_cost 3 ?C (snd rc) \<le> total_cost 3 ?C [2, 0, 1]"
    by (simp_all add: lsa_ok_def assignments_3)
  from m o have "snd rc = [2, 0, 1]"
    unfolding assignments_3 by (auto simp: total_cost_3 split_cells_low [unfolded One_nat_def])
  with r show ?thesis by (cases rc) simp
qed

lemma split_optimum_high:
  assumes "lsa_ok 3 (id_cost_matrix 2 1 (seq_tables (7 / 10) split_data)) rc"
  shows "rc = ([0..<3], [2, 1, 0])"
proof -
  let ?C = "id_cost_matrix 2 1 (seq_tables (7 / 10) split_data)"
  from assms have r: "fst rc = [0..<3]" and m: "snd rc \<in> set (assignments 3)"
    and o: "total_cost 3 ?C (snd rc) \<le> total_cost 3 ?C [2, 1, 0]"
    by (simp_all add: lsa_ok_def assignments_3)
  from m o have "snd rc = [2, 1, 0]"
    unfolding assignments_3 by (auto simp: total_cost_3 split_cells_high [unfolded One_nat_def])
  with r show ?thesis by (cases rc) simp
qed

lemma split_sums_low:
  "(\<Sum>(r, c)\<leftarrow>zip [0..<3] [2, 0, 1]. id_fn_mat 2 1 (seq_tables (1 / 2) split_data) r c) = 25000000000"
  "(\<Sum>(r, c)\<leftarrow>zip [0..<3] [2, 0, 1]. id_fp_mat 2 1 (seq_tables (1 / 2) split_data) r c) = 15000000000"
  "sum_list (map (fst (snd (seq_tables (1 / 2) split_data))) [0..<2]) = 60000000000"
  unfolding split_tables id_fn_mat_eq id_fp_mat_eq penalty_def
  by (simp_all add: half_def upt_rec [of 0] upt_rec [of 1] upt_rec [of 2] numeral_3_eq_3 numeral_2_eq_2)

lemma split_sums_high:
  "(\<Sum>(r, c)\<leftarrow>zip [0..<3] [2, 1, 0]. id_fn_mat 2 1 (seq_tables (7 / 10) split_data) r c) = 20000000000"
  "(\<Sum>(r, c)\<leftarrow>zip [0..<3] [2, 1, 0]. id_fp_mat 2 1 (seq_tables (7 / 10) split_data) r c) = 30000000000"
  "sum_list (map (fst (snd (seq_tables (7 / 10) split_data))) [0..<2]) = 60000000000"
  unfolding split_tables id_fn_mat_eq id_fp_mat_eq penalty_def
  by (simp_all add: half_def upt_rec [of 0] upt_rec [of 1] upt_rec [of 2] numeral_3_eq_3 numeral_2_eq_2)

lemma astype_int_numeral: "astype_int (numeral k) = numeral k"
  by (simp add: astype_int_def)

lemma split_shape:
  "num_tracker_dets split_data \<noteq> 0" "num_gt_dets split_data \<noteq> 0"
  "2 = num_gt_ids split_data" "1 = num_tracker_ids split_data"
  by (simp_all add: split_data_def const_ids_data_def half_def)

lemma split_accumulate: "accumulate thr split_data = Inr (seq_tables thr split_data)"
  using split_valid by (intro accumulate_shapes_ok) (simp add: valid_data_def)

lemma split_result_low:
  assumes "lsa_ok 3 (id_cost_matrix 2 1 (seq_tables (1 / 2) split_data))
             (lsa 3 (id_cost_matrix 2 1 (seq_tables (1 / 2) split_data)))"
  shows "eval_sequence lsa (1 / 2) split_data
     = Inr (spec_derive 35000000000 25000000000 15000000000)"
proof -
  have e: "(2::nat) + 1 = 3" by simp
  have rc: "lsa (2 + 1) (id_cost_matrix 2 1 (seq_tables (1 / 2) split_data)) = ([0..<3], [2, 0, 1])"
    unfolding e using assms by (rule split_optimum_low)
  have len: "length [0..<3] = length [2, 0, 1::nat]" "\<forall>r\<in>set [0..<3]. r < 2 + 1"
    "\<forall>c\<in>set [2, 0, 1::nat]. c < 2 + 1"
    by simp_all
  note m = eval_sequence_main [where lsa = lsa, OF split_shape(1,2) split_accumulate split_shape(3,4)
      rc len refl refl]
  show ?thesis
    unfolding m split_sums_low by (simp add: astype_int_numeral)
qed

lemma split_result_high:
  assumes "lsa_ok 3 (id_cost_matrix 2 1 (seq_tables (7 / 10) split_data))
             (lsa 3 (id_cost_matrix 2 1 (seq_tables (7 / 10) split_data)))"
  shows "eval_sequence lsa (7 / 10) split_data
     = Inr (spec_derive 40000000000 20000000000 30000000000)"
proof -
  have e: "(2::nat) + 1 = 3" by simp
  have rc: "lsa (2 + 1) (id_cost_matrix 2 1 (seq_tables (7 / 10) split_data)) = ([0..<3], [2, 1, 0])"
    unfolding e using assms by (rule split_optimum_high)
  have len: "length [0..<3] = length [2, 1, 0::nat]" "\<forall>r\<in>set [0..<3]. r < 2 + 1"
    "\<forall>c\<in>set [2, 1, 0::nat]. c < 2 + 1"
    by simp_all
  note m = eval_sequence_main [where lsa = lsa, OF split_shape(1,2) split_accumulate split_shape(3,4)
      rc len refl refl]
  show ?thesis
    unfolding m split_sums_high by (simp add: astype_int_numeral)
qed

text \<open>
  Against claim C6 as stated: on the long two-phase sequence the minimum-cost assignment is
  unique at both thresholds.
  At threshold \<open>0.5\<close> it pairs ground-truth identity \<open>1\<close> with the tracker and sends
  identity \<open>0\<close> through a penalty cell: \<open>IDTP = 3.5e10\<close>, \<open>IDFN = 2.5e10\<close>. At \<open>0.7\<close> it
  sends both ground-truth identities through penalty cells: \<open>IDTP = 4e10\<close>,
  \<open>IDFN = 2e10\<close>. Raising the threshold raised \<open>IDTP\<close> and lowered \<open>IDFN\<close>.
\<close>

theorem threshold_not_monotone:
  "valid_data split_data
   \<and> lsa_ok 3 (id_cost_matrix 2 1 (seq_tables (1 / 2) split_data))
        (brute_solver 3 (id_cost_matrix 2 1 (seq_tables (1 / 2) split_data)))
   \<and> lsa_ok 3 (id_cost_matrix 2 1 (seq_tables (7 / 10) split_data))
        (brute_solver 3 (id_cost_matrix 2 1 (seq_tables (7 / 10) split_data)))
   \<and> eval_sequence brute_solver (1 / 2) split_data
        = Inr (spec_derive 35000000000 25000000000 15000000000)
   \<and> eval_sequence brute_solver (7 / 10) split_data
        = Inr (spec_derive 40000000000 20000000000 30000000000)
   \<and> IDFN (spec_derive 40000000000 20000000000 30000000000)
        < IDFN (spec_derive 35000000000 25000000000 15000000000)
   \<and> IDTP (spec_derive 35000000000 25000000000 15000000000)
        < IDTP (spec_derive 40000000000 20000000000 30000000000)"
proof -
  note a = brute_solver_ok [of 3 "id_cost_matrix 2 1 (seq_tables (1 / 2) split_data)"]
  note b = brute_solver_ok [of 3 "id_cost_matrix 2 1 (seq_tables (7 / 10) split_data)"]
  from split_valid a b split_result_low [where lsa = brute_solver, OF a]
    split_result_high [where lsa = brute_solver, OF b] show ?thesis
    by (simp add: spec_derive_def)
qed

lemma two_by_two_solver_high:
  "lsa_ok (2 + 2) (id_cost_matrix 2 2 (seq_tables (3 / 4) two_by_two_data))
     (diagonal_solver (2 + 2) (id_cost_matrix 2 2 (seq_tables (3 / 4) two_by_two_data)))"
  by code_simp

theorem threshold_monotone_witness:
  "fst (seq_tables (3 / 4) two_by_two_data) 0 0 \<le> fst (seq_tables (1 / 2) two_by_two_data) 0 0
   \<and> (\<exists>r1 r2. eval_sequence diagonal_solver (1 / 2) two_by_two_data = Inr r1
         \<and> eval_sequence diagonal_solver (3 / 4) two_by_two_data = Inr r2
         \<and> IDTP r2 \<le> IDTP r1 \<and> IDFN r1 \<le> IDFN r2 \<and> IDFP r1 \<le> IDFP r2)"
proof -
  have v: "shapes_ok two_by_two_data"
    using two_by_two_valid by (simp add: valid_data_def)
  have h: "2 = num_gt_ids two_by_two_data" "2 = num_tracker_ids two_by_two_data"
    "real (num_gt_dets two_by_two_data + num_tracker_dets two_by_two_data) < 10 ^ 10"
    "(1 / 2 :: real) \<le> 3 / 4"
    by (simp_all add: two_by_two_data_def)
  from threshold_monotone [where lsa = diagonal_solver,
      OF h(4) accumulate_shapes_ok [OF v] accumulate_shapes_ok [OF v] h(1,2)]
    two_by_two_valid two_by_two_solver two_by_two_solver_high h(3)
  show ?thesis by blast
qed

end
